theory Spec2Isabelle
  imports Main "HOL-Library.AList"
begin

section \<open>JavaScript values used by migrate.ts\<close>

text \<open>
  A JavaScript string is modelled as a \<^typ>\<open>string\<close>: a list of code units below 256.
  In that range the class \<open>\s\<close> of a JavaScript regular expression (and the set that
  \<open>String.prototype.trim\<close> removes) is TAB, LF, VT, FF, CR, SPACE and NBSP; the class
  \<open>\w\<close> is \<open>[A-Za-z0-9_]\<close>.
\<close>

definition is_space :: "char \<Rightarrow> bool" where
  "is_space c = (c = CHR 0x09 \<or> c = CHR 0x0A \<or> c = CHR 0x0B \<or> c = CHR 0x0C \<or> c = CHR 0x0D
     \<or> c = CHR '' '' \<or> c = CHR 0xA0)"

definition is_word :: "char \<Rightarrow> bool" where
  "is_word c = (let n = (of_char c :: nat) in
     (48 \<le> n \<and> n \<le> 57) \<or> (65 \<le> n \<and> n \<le> 90) \<or> n = 95 \<or> (97 \<le> n \<and> n \<le> 122))"

definition is_blank :: "char \<Rightarrow> bool" where
  "is_blank c = (c = CHR '' '')"

definition is_punct :: "char \<Rightarrow> bool" where
  "is_punct c = (c = CHR ''('' \<or> c = CHR '')'' \<or> c = CHR '','')"

text \<open>\<open>s.trim()\<close>\<close>

definition trim :: "string \<Rightarrow> string" where
  "trim s = rev (dropWhile is_space (rev (dropWhile is_space s)))"

text \<open>\<open>s.endsWith(suffix)\<close>\<close>

definition endsWith :: "string \<Rightarrow> string \<Rightarrow> bool" where
  "endsWith s suffix =
     (length suffix \<le> length s \<and> drop (length s - length suffix) s = suffix)"

text \<open>\<open>xs.join(sep)\<close>; \<open>`${xs}`\<close> of an array is \<open>xs.join(",")\<close>.\<close>

fun join :: "string \<Rightarrow> string list \<Rightarrow> string" where
  "join sep [] = []"
| "join sep [x] = x"
| "join sep (x # y # ys) = x @ sep @ join sep (y # ys)"

text \<open>
  \<open>`${n}`\<close> of an integral number: its decimal digits, with a minus sign when
  negative (the pragma values of SQLite are 32-bit integers, far below the magnitude where
  JavaScript switches to exponent notation).
\<close>

fun digits :: "nat \<Rightarrow> string" where
  "digits n = (if n < 10 then [char_of (48 + n)] else digits (n div 10) @ [char_of (48 + n mod 10)])"

definition number_toString :: "int \<Rightarrow> string" where
  "number_toString i = (if i < 0 then CHR ''-'' # digits (nat (- i)) else digits (nat i))"

text \<open>
  A JavaScript \<open>Set\<close> keeps its members in insertion order, each once: a list without
  duplicates. \<open>new Set(xs)\<close> adds the members of \<open>xs\<close> from left to right.
\<close>

definition Set_add :: "'a \<Rightarrow> 'a list \<Rightarrow> 'a list" where
  "Set_add x s = (if x \<in> set s then s else s @ [x])"

definition Set_delete :: "'a \<Rightarrow> 'a list \<Rightarrow> 'a list" where
  "Set_delete x s = removeAll x s"

definition new_Set :: "'a list \<Rightarrow> 'a list" where
  "new_Set xs = fold Set_add xs []"

text \<open>
  A JavaScript \<open>Map\<close> keeps its entries in the order in which the keys were first
  inserted; inserting an existing key replaces its value in place. That is
  \<^const>\<open>AList.update\<close> on an association list.
\<close>

definition new_Map :: "('k \<times> 'v) list \<Rightarrow> ('k \<times> 'v) list" where
  "new_Map entries = fold (\<lambda>(k, v). AList.update k v) entries []"

definition Map_keys :: "('k \<times> 'v) list \<Rightarrow> 'k list" where
  "Map_keys m = map fst m"

definition Map_get :: "('k \<times> 'v) list \<Rightarrow> 'k \<Rightarrow> 'v option" where
  "Map_get m k = map_of m k"

definition Map_has :: "('k \<times> 'v) list \<Rightarrow> 'k \<Rightarrow> bool" where
  "Map_has m k = (map_of m k \<noteq> None)"

section \<open>normaliseSql\<close>

text \<open>
  \<open>sql.replace(/--[^\n]*\n/g, "")\<close>. At a position that starts with \<open>--\<close> the
  expression matches up to and including the next line feed; when no line feed follows,
  there is no match at this position and the scan moves on by one character.
\<close>

fun after_newline :: "string \<Rightarrow> string option" where
  "after_newline [] = None"
| "after_newline (c # cs) = (if c = CHR 0x0A then Some cs else after_newline cs)"

lemma after_newline_length: "after_newline s = Some r \<Longrightarrow> length r < length s"
  by (induction s) (auto split: if_splits)

function remove_comments :: "string \<Rightarrow> string" where
  "remove_comments [] = []"
| "remove_comments [c] = [c]"
| "remove_comments (c # d # cs) =
     (if c = CHR ''-'' \<and> d = CHR ''-'' then
        (case after_newline cs of
           Some rest \<Rightarrow> remove_comments rest
         | None \<Rightarrow> c # remove_comments (d # cs))
      else c # remove_comments (d # cs))"
  by pat_completeness auto
termination
  by (relation "measure length") (auto dest: after_newline_length)

text \<open>\<open>sql.replace(/\s+/g, " ")\<close>\<close>

function collapse_whitespace :: "string \<Rightarrow> string" where
  "collapse_whitespace [] = []"
| "collapse_whitespace (c # cs) =
     (if is_space c then CHR '' '' # collapse_whitespace (dropWhile is_space cs)
      else c # collapse_whitespace cs)"
  by pat_completeness auto
termination
  by (relation "measure length") (auto simp: less_Suc_eq_le length_dropWhile_le)

text \<open>
  \<open>sql.replace(/ *([(),]) */g, "$1")\<close>. At each position the expression takes the
  spaces there, then needs one of \<open>( ) ,\<close>, then takes the spaces after it. When the
  character after the spaces is something else, there is no match at this position.
\<close>

function tighten_punctuation :: "string \<Rightarrow> string" where
  "tighten_punctuation [] = []"
| "tighten_punctuation (c # cs) =
     (case dropWhile is_blank (c # cs) of
        [] \<Rightarrow> c # tighten_punctuation cs
      | p # rest \<Rightarrow>
          if is_punct p then p # tighten_punctuation (dropWhile is_blank rest)
          else c # tighten_punctuation cs)"
  by pat_completeness auto
termination
proof (relation "measure length")
  show "wf (measure length)" by simp
next
  fix c :: char and cs :: string
  show "(cs, c # cs) \<in> measure length" by simp
next
  fix c p :: char and cs rest :: string
  assume eq: "dropWhile is_blank (c # cs) = p # rest"
  have "length (dropWhile is_blank rest) \<le> length rest"
    by (rule length_dropWhile_le)
  moreover have "length (p # rest) \<le> length (c # cs)"
    unfolding eq [symmetric] by (rule length_dropWhile_le)
  ultimately show "(dropWhile is_blank rest, c # cs) \<in> measure length" by simp
next
  fix c :: char and cs :: string
  show "(cs, c # cs) \<in> measure length" by simp
qed

text \<open>
  \<open>sql.replace(/"(\w+)"/g, "$1")\<close>. At a double quote the expression needs one or more
  word characters and then a closing double quote; the match is replaced by the word.
\<close>

function remove_quotes :: "string \<Rightarrow> string" where
  "remove_quotes [] = []"
| "remove_quotes (c # cs) =
     (if c = CHR 0x22 \<and> takeWhile is_word cs \<noteq> [] \<and> take 1 (dropWhile is_word cs) = [CHR 0x22]
      then takeWhile is_word cs @ remove_quotes (tl (dropWhile is_word cs))
      else c # remove_quotes cs)"
  by pat_completeness auto
termination
proof (relation "measure length")
  show "wf (measure length)" by simp
next
  fix c :: char and cs :: string
  have "length (tl (dropWhile is_word cs)) \<le> length cs"
    using length_dropWhile_le [of is_word cs] by simp
  then show "(tl (dropWhile is_word cs), c # cs) \<in> measure length" by simp
next
  fix c :: char and cs :: string
  show "(cs, c # cs) \<in> measure length" by simp
qed

definition normaliseSql :: "string \<Rightarrow> string" where
  "normaliseSql sql =
     (if sql = [] then []
      else trim (remove_quotes (tighten_punctuation (collapse_whitespace (remove_comments sql)))))"

section \<open>The database handle\<close>

text \<open>
  \<open>bun:sqlite\<close> and the JavaScript runtime are not part of the repository: what
  \<open>migrate.ts\<close> calls on them is a parameter of the model. \<open>'db\<close> is the state of one
  database.
  \<^item> \<open>memory\<close> is \<open>new Database(":memory:")\<close>; \<open>exec\<close> and \<open>run\<close> execute
    SQL text and either raise (\<open>Inl\<close>, the database as it was) or return the database
    after the statement.
  \<^item> \<open>sqlite_master\<close> lists the rows of the catalog table as (type, name, sql); the three
    catalog queries of \<open>migrate\<close> are written out over it below. The interface
    \<open>TableInfo\<close> declares \<open>sql\<close> a string; a NULL of the column reads as the empty
    string here, which the source treats alike (both are falsy, and \<open>normaliseSql\<close>
    maps both to the empty string).
  \<^item> \<open>pragma_value d p\<close> is the value that \<open>PRAGMA p\<close> reports (\<open>None\<close>: no row).
  \<^item> \<open>table_info d t\<close> is the name column of \<open>PRAGMA table_info(?)\<close> bound to \<open>t\<close>.
  \<^item> \<open>foreign_key_check d\<close> is the number of rows of \<open>PRAGMA foreign_key_check\<close>.
  \<^item> \<open>RegExp_replace pattern replacement s\<close> is
    \<open>s.replace(new RegExp(pattern, "g"), replacement)\<close> for the pattern that
    \<open>migrate\<close> builds from a table name.
\<close>

record 'db runtime =
  memory :: "'db"
  exec :: "'db \<Rightarrow> string \<Rightarrow> string + 'db"
  run :: "'db \<Rightarrow> string \<Rightarrow> string + 'db"
  sqlite_master :: "'db \<Rightarrow> (string \<times> string \<times> string) list"
  pragma_value :: "'db \<Rightarrow> string \<Rightarrow> int option"
  table_info :: "'db \<Rightarrow> string \<Rightarrow> string + string list"
  foreign_key_check :: "'db \<Rightarrow> nat"
  RegExp_replace :: "string \<Rightarrow> string \<Rightarrow> string \<Rightarrow> string + string"

text \<open>
  \<open>SELECT name, sql FROM sqlite_master WHERE type = 'table' AND name != 'sqlite_sequence'\<close>
\<close>

definition query_tables :: "'db runtime \<Rightarrow> 'db \<Rightarrow> (string \<times> string) list" where
  "query_tables E d =
     map (\<lambda>(t, n, s). (n, s))
       (filter (\<lambda>(t, n, s). t = ''table'' \<and> n \<noteq> ''sqlite_sequence'') (sqlite_master E d))"

text \<open>\<open>SELECT name, sql FROM sqlite_master WHERE type = 'index'\<close>\<close>

definition query_indices :: "'db runtime \<Rightarrow> 'db \<Rightarrow> (string \<times> string) list" where
  "query_indices E d =
     map (\<lambda>(t, n, s). (n, s)) (filter (\<lambda>(t, n, s). t = ''index'') (sqlite_master E d))"

text \<open>
  \<open>name LIKE '%_migration_new'\<close>. In a LIKE pattern \<open>%\<close> stands for any run of
  characters and \<open>_\<close> for any one character, and SQLite compares the ASCII letters
  without regard to case. So the pattern asks for a name whose last fourteen characters
  are: any character, \<open>migration\<close>, any character, \<open>new\<close>.
\<close>

definition sql_lower :: "char \<Rightarrow> char" where
  "sql_lower c = (let n = (of_char c :: nat) in if 65 \<le> n \<and> n \<le> 90 then char_of (n + 32) else c)"

definition like_migration_new :: "string \<Rightarrow> bool" where
  "like_migration_new name =
     (14 \<le> length name \<and>
      (let t = drop (length name - 14) name
       in map sql_lower (take 9 (drop 1 t)) = ''migration'' \<and>
          map sql_lower (drop 11 t) = ''new''))"

text \<open>
  \<open>SELECT name FROM sqlite_master WHERE type = 'table' AND name LIKE '%_migration_new'\<close>
\<close>

definition query_leftover :: "'db runtime \<Rightarrow> 'db \<Rightarrow> string list" where
  "query_leftover E d =
     map (\<lambda>(t, n, s). n)
       (filter (\<lambda>(t, n, s). t = ''table'' \<and> like_migration_new n) (sqlite_master E d))"

text \<open>
  \<open>db.query(`PRAGMA ${pragma}`).get()\<close> returns the first row as an object keyed by
  column name, or null. The one column of the row is named after the pragma, which is how
  \<open>migratePragma\<close> reads it (\<open>val[pragma]\<close>). A row is an association list from
  keys to numbers; reading a key that the row does not have gives \<open>undefined\<close>
  (\<open>None\<close>).
\<close>

type_synonym PragmaResult = "(string \<times> int) list"

definition pragma_get :: "'db runtime \<Rightarrow> 'db \<Rightarrow> string \<Rightarrow> PragmaResult option" where
  "pragma_get E d p = map_option (\<lambda>v. [(p, v)]) (pragma_value E d p)"

text \<open>Truthiness of a number or \<open>undefined\<close>.\<close>

definition truthy :: "int option \<Rightarrow> bool" where
  "truthy v = (case v of None \<Rightarrow> False | Some n \<Rightarrow> n \<noteq> 0)"

text \<open>\<open>`${v}`\<close> of a number or \<open>undefined\<close>.\<close>

definition template_of :: "int option \<Rightarrow> string" where
  "template_of v = (case v of None \<Rightarrow> ''undefined'' | Some n \<Rightarrow> number_toString n)"

section \<open>DBMigrator\<close>

text \<open>
  The errors that a migration raises. The source throws plain \<open>Error\<close> objects; the
  constructors carry the message and are named after the error kinds of the
  specification: \<open>DestructiveChangeRejected\<close> for the two "Refusing to ..." errors,
  \<open>ForeignKeyViolation\<close> for "Would fail foreign_key_check", \<open>SchemaLoadError\<close> for an
  exception of \<open>pristine.exec(schema)\<close>, \<open>ExecutionError\<close> for an exception of any
  other call into the runtime.
\<close>

datatype error =
    SchemaLoadError string
  | DestructiveChangeRejected string
  | ForeignKeyViolation string
  | ExecutionError string

text \<open>
  The fields of the class. \<open>executed\<close> is not a field of the source: it records, in
  order, the SQL text of every statement that \<open>logExecute\<close> has run, which the source
  writes to the console.
\<close>

record 'db DBMigrator =
  db :: "'db"
  schema :: string
  allowDeletions :: bool
  pristine :: "'db"
  nChanges :: nat
  origForeignKeys :: "int option"
  executed :: "string list"

type_synonym 'db step = "'db DBMigrator \<Rightarrow> error option \<times> 'db DBMigrator"

text \<open>
  Sequencing: an exception ends the run, in the state that the run had reached.
\<close>

definition andThen :: "'db step \<Rightarrow> 'db step \<Rightarrow> 'db step" where
  "andThen f g st = (case f st of (Some e, st') \<Rightarrow> (Some e, st') | (None, st') \<Rightarrow> g st')"

fun forEach :: "('a \<Rightarrow> 'db step) \<Rightarrow> 'a list \<Rightarrow> 'db step" where
  "forEach f [] st = (None, st)"
| "forEach f (x # xs) st =
     (case f x st of (Some e, st') \<Rightarrow> (Some e, st') | (None, st') \<Rightarrow> forEach f xs st')"


text \<open>
  \<open>logExecute\<close>. The lines that the source writes to the console are not modelled,
  apart from \<open>executed\<close>; the statement is run when \<open>sql && sql.trim()\<close> is
  truthy, and only a statement that \<open>db.run\<close> has returned from is counted.
\<close>

definition logExecute :: "'db runtime \<Rightarrow> string \<Rightarrow> string \<Rightarrow> 'db step" where
  "logExecute E msg sql st =
     (if sql \<noteq> [] \<and> trim sql \<noteq> [] then
        (case run E (db st) sql of
           Inl e \<Rightarrow> (Some (ExecutionError e), st)
         | Inr d \<Rightarrow>
             (None, st\<lparr>db := d, nChanges := nChanges st + 1, executed := executed st @ [sql]\<rparr>))
      else (None, st))"

text \<open>The three sets of table names that \<open>migrate\<close> computes first.\<close>

definition newTables_of :: "(string \<times> string) list \<Rightarrow> (string \<times> string) list \<Rightarrow> string list" where
  "newTables_of pristineTables tables =
     fold Set_delete (Map_keys tables) (new_Set (Map_keys pristineTables))"

definition removedTables_of :: "(string \<times> string) list \<Rightarrow> (string \<times> string) list \<Rightarrow> string list" where
  "removedTables_of pristineTables tables =
     filter (\<lambda>tableName. \<not> endsWith tableName ''_migration_new'')
       (fold Set_delete (Map_keys pristineTables) (new_Set (Map_keys tables)))"

definition modifiedTables_of :: "(string \<times> string) list \<Rightarrow> (string \<times> string) list \<Rightarrow> string list" where
  "modifiedTables_of pristineTables tables =
     new_Set (map fst
       (filter (\<lambda>(name, sql).
          case Map_get tables name of
            None \<Rightarrow> False
          | Some existingTableSql \<Rightarrow> normaliseSql existingTableSql \<noteq> normaliseSql sql)
        pristineTables))"

text \<open>The body of the loop over \<open>newTables\<close>.\<close>

definition createTable :: "'db runtime \<Rightarrow> (string \<times> string) list \<Rightarrow> string \<Rightarrow> 'db step" where
  "createTable E pristineTables tblName st =
     (case Map_get pristineTables tblName of
        None \<Rightarrow> (None, st)
      | Some tableSql \<Rightarrow>
          if tableSql \<noteq> [] then logExecute E (''Create table '' @ tblName) tableSql st
          else (None, st))"

text \<open>The body of the loop over \<open>removedTables\<close>.\<close>

definition dropTable :: "'db runtime \<Rightarrow> string \<Rightarrow> 'db step" where
  "dropTable E tblName st =
     logExecute E (''Drop table '' @ tblName) (''DROP TABLE '' @ tblName) st"

text \<open>
  The body of the loop over \<open>modifiedTables\<close>: the new table under the name
  \<open>tblName_migration_new\<close>, then (\<open>migrateData\<close>) the check for removed columns,
  the copy of the common columns, the drop of the old table and the rename.
\<close>

definition copyColumns :: "string \<Rightarrow> string list \<Rightarrow> string list \<Rightarrow> string" where
  "copyColumns tblName cols pristineCols =
     ''INSERT INTO '' @ tblName @ ''_migration_new ('' @
       join '', '' (filter (\<lambda>x. x \<in> set pristineCols) cols) @ '')'' @ [CHR 0x0A] @
     ''                SELECT '' @ join '', '' (filter (\<lambda>x. x \<in> set pristineCols) cols) @
     '' FROM '' @ tblName"

definition migrateData :: "'db runtime \<Rightarrow> string \<Rightarrow> 'db step" where
  "migrateData E tblName st =
     (case table_info E (db st) tblName of
        Inl e \<Rightarrow> (Some (ExecutionError e), st)
      | Inr colNames \<Rightarrow>
          (case table_info E (pristine st) tblName of
             Inl e \<Rightarrow> (Some (ExecutionError e), st)
           | Inr pristineColNames \<Rightarrow>
               let cols = new_Set colNames;
                   pristineCols = new_Set pristineColNames;
                   removedColumns = filter (\<lambda>x. x \<notin> set pristineCols) cols
               in
                 if \<not> allowDeletions st \<and> removedColumns \<noteq> [] then
                   (Some (DestructiveChangeRejected
                      (''Database migration: Refusing to remove columns '' @
                       join '','' removedColumns @ '' from table '' @ tblName)), st)
                 else
                   andThen
                     (logExecute E (''Migrate data for table '' @ tblName)
                        (copyColumns tblName cols pristineCols))
                     (andThen
                        (logExecute E
                           (''Drop old table '' @ tblName @ '' now data has been migrated'')
                           (''DROP TABLE '' @ tblName))
                        (logExecute E
                           (''Columns change: Move new table '' @ tblName @ '' over old'')
                           (''ALTER TABLE '' @ tblName @ ''_migration_new RENAME TO '' @ tblName)))
                     st))"

definition rebuildTable :: "'db runtime \<Rightarrow> (string \<times> string) list \<Rightarrow> string \<Rightarrow> 'db step" where
  "rebuildTable E pristineTables tblName st =
     (case Map_get pristineTables tblName of
        None \<Rightarrow> (None, st)
      | Some createTableSql \<Rightarrow>
          if createTableSql = [] then (None, st)
          else
            (case RegExp_replace E ([CHR 0x5C] @ ''b'' @ tblName @ [CHR 0x5C] @ ''b'')
                    (tblName @ ''_migration_new'') createTableSql of
               Inl e \<Rightarrow> (Some (ExecutionError e), st)
             | Inr newTableSql \<Rightarrow>
                 andThen
                   (logExecute E
                      (''Columns change: Create table '' @ tblName @ '' with updated schema'')
                      newTableSql)
                   (migrateData E tblName)
                   st))"

text \<open>
  The indices. \<open>indices\<close> is read once, after the tables have been migrated; the first
  loop drops the indices that the target does not have, the second creates the missing
  ones and replaces those whose SQL text is not the target's.
\<close>

definition dropObsoleteIndex :: "'db runtime \<Rightarrow> (string \<times> string) list \<Rightarrow> string \<Rightarrow> 'db step" where
  "dropObsoleteIndex E pristineIndices name st =
     (if \<not> Map_has pristineIndices name then
        logExecute E (''Dropping obsolete index '' @ name) (''DROP INDEX '' @ name) st
      else (None, st))"

definition migrateIndex :: "'db runtime \<Rightarrow> (string \<times> string) list \<Rightarrow> string \<times> string \<Rightarrow> 'db step" where
  "migrateIndex E indices entry st =
     (case entry of (name, sql) \<Rightarrow>
        if \<not> Map_has indices name then
          logExecute E (''Creating new index '' @ name) sql st
        else if Some sql \<noteq> Map_get indices name then
          andThen
            (logExecute E (''Index '' @ name @ '' changed: Dropping old version'')
               (''DROP INDEX '' @ name))
            (logExecute E (''Index '' @ name @ '' changed: Creating updated version in its place'')
               sql)
            st
        else (None, st))"

definition migrateIndices :: "'db runtime \<Rightarrow> (string \<times> string) list \<Rightarrow> 'db step" where
  "migrateIndices E pristineIndices st =
     (let indices = new_Map (query_indices E (db st))
      in andThen
           (forEach (dropObsoleteIndex E pristineIndices) (Map_keys indices))
           (forEach (migrateIndex E indices) pristineIndices)
           st)"

definition migratePragma :: "'db runtime \<Rightarrow> string \<Rightarrow> 'db step" where
  "migratePragma E pragma st =
     (case pragma_get E (pristine st) pragma of
        None \<Rightarrow> (None, st)
      | Some pristineVal \<Rightarrow>
          (case pragma_get E (db st) pragma of
             None \<Rightarrow> (None, st)
           | Some val \<Rightarrow>
               let pristinePragmaValue = map_of pristineVal pragma;
                   currentPragmaValue = map_of val pragma
               in
                 if currentPragmaValue \<noteq> pristinePragmaValue then
                   logExecute E
                     (''Set '' @ pragma @ '' to '' @ template_of pristinePragmaValue @
                      '' from '' @ template_of currentPragmaValue)
                     (''PRAGMA '' @ pragma @ '' = '' @ template_of pristinePragmaValue)
                     st
                 else (None, st)))"

text \<open>
  \<open>if (this.pristine.query("PRAGMA foreign_keys").get()?.[0])\<close>: the row is read at
  the key \<open>0\<close>.
\<close>

definition foreignKeyCheck :: "'db runtime \<Rightarrow> 'db step" where
  "foreignKeyCheck E st =
     (if truthy (case pragma_get E (pristine st) ''foreign_keys'' of
                   None \<Rightarrow> None
                 | Some row \<Rightarrow> map_of row ''0'') then
        if foreign_key_check E (db st) > 0 then
          (Some (ForeignKeyViolation ''Database migration: Would fail foreign_key_check''), st)
        else (None, st)
      else (None, st))"

text \<open>The last block of \<open>migrate\<close>: the leftover temporary tables.\<close>

definition dropLeftover :: "'db runtime \<Rightarrow> string \<Rightarrow> 'db step" where
  "dropLeftover E name st =
     logExecute E ''Removing leftover temporary table'' (''DROP TABLE IF EXISTS '' @ name) st"

definition cleanup :: "'db runtime \<Rightarrow> 'db step" where
  "cleanup E st = forEach (dropLeftover E) (query_leftover E (db st)) st"

text \<open>
  \<open>migrate\<close>, in the order of the source: the sets of tables and the refusal to
  delete tables; then \<open>PRAGMA defer_foreign_keys\<close>, the tables and the indices
  (\<open>migrate_objects\<close>); then \<open>migratePragma('user_version')\<close>; then the foreign-key
  check; then the leftover temporary tables.
\<close>

definition migrate_tables :: "'db runtime \<Rightarrow> (string \<times> string) list \<Rightarrow> (string \<times> string) list \<Rightarrow> 'db step" where
  "migrate_tables E pristineTables tables =
     andThen (forEach (createTable E pristineTables) (newTables_of pristineTables tables))
       (andThen (forEach (dropTable E) (removedTables_of pristineTables tables))
          (forEach (rebuildTable E pristineTables) (modifiedTables_of pristineTables tables)))"

definition migrate_objects :: "'db runtime \<Rightarrow> (string \<times> string) list \<Rightarrow> (string \<times> string) list \<Rightarrow> (string \<times> string) list \<Rightarrow> 'db step" where
  "migrate_objects E pristineTables pristineIndices tables st =
     (case run E (db st) ''PRAGMA defer_foreign_keys = TRUE'' of
        Inl e \<Rightarrow> (Some (ExecutionError e), st)
      | Inr d \<Rightarrow>
          andThen (migrate_tables E pristineTables tables) (migrateIndices E pristineIndices)
            (st\<lparr>db := d\<rparr>))"

definition migrate_plan :: "'db runtime \<Rightarrow> (string \<times> string) list \<Rightarrow> (string \<times> string) list \<Rightarrow> (string \<times> string) list \<Rightarrow> 'db step" where
  "migrate_plan E pristineTables pristineIndices tables =
     andThen (migrate_objects E pristineTables pristineIndices tables)
       (migratePragma E ''user_version'')"

definition migrate :: "'db runtime \<Rightarrow> 'db step" where
  "migrate E st =
     (let pristineTables = new_Map (query_tables E (pristine st));
          pristineIndices = new_Map (query_indices E (pristine st));
          tables = new_Map (query_tables E (db st));
          removedTables = removedTables_of pristineTables tables
      in
        if removedTables \<noteq> [] \<and> \<not> allowDeletions st then
          (Some (DestructiveChangeRejected
             (''Database migration: Refusing to delete tables '' @ join '','' removedTables)), st)
        else
          andThen (migrate_plan E pristineTables pristineIndices tables)
            (andThen (foreignKeyCheck E) (cleanup E)) st)"


section \<open>A small database engine for the examples\<close>

text \<open>
  The theorems below hold for every runtime. The examples run \<open>migrate\<close> on this one:
  a database is its catalog, the two pragma values and the number of foreign-key
  violations; \<open>mini_run\<close> understands the statements \<open>CREATE TABLE\<close>,
  \<open>CREATE INDEX\<close>, \<open>DROP TABLE [IF EXISTS]\<close> and \<open>DROP INDEX\<close> for plain names
  and \<open>PRAGMA user_version = n\<close>, and leaves the database as it is on any other
  text.
\<close>

record mini_db =
  catalog :: "(string \<times> string \<times> string) list"
  user_version :: int
  foreign_keys :: int
  violations :: nat

definition strip_prefix :: "string \<Rightarrow> string \<Rightarrow> string option" where
  "strip_prefix p s = (if take (length p) s = p then Some (drop (length p) s) else None)"

definition object_name :: "string \<Rightarrow> string" where
  "object_name rest = takeWhile (\<lambda>c. c \<noteq> CHR ''('' \<and> c \<noteq> CHR '' '') rest"

definition drop_object :: "string \<Rightarrow> string \<Rightarrow> mini_db \<Rightarrow> mini_db" where
  "drop_object kind n d = d\<lparr>catalog := filter (\<lambda>(t, m, s). \<not> (t = kind \<and> m = n)) (catalog d)\<rparr>"

definition parse_number :: "string \<Rightarrow> int" where
  "parse_number s =
     (if take 1 s = ''-'' then - int (foldl (\<lambda>a c. 10 * a + (of_char c - 48)) 0 (drop 1 s))
      else int (foldl (\<lambda>a c. 10 * a + (of_char c - 48)) 0 s))"

definition mini_run :: "mini_db \<Rightarrow> string \<Rightarrow> string + mini_db" where
  "mini_run d sql =
     (case strip_prefix ''DROP TABLE IF EXISTS '' sql of
        Some n \<Rightarrow> Inr (drop_object ''table'' n d)
      | None \<Rightarrow>
     (case strip_prefix ''DROP TABLE '' sql of
        Some n \<Rightarrow>
          if (''table'', n) \<in> set (map (\<lambda>(t, m, s). (t, m)) (catalog d))
          then Inr (drop_object ''table'' n d)
          else Inl (''no such table: '' @ n)
      | None \<Rightarrow>
     (case strip_prefix ''DROP INDEX '' sql of
        Some n \<Rightarrow>
          if (''index'', n) \<in> set (map (\<lambda>(t, m, s). (t, m)) (catalog d))
          then Inr (drop_object ''index'' n d)
          else Inl (''no such index: '' @ n)
      | None \<Rightarrow>
     (case strip_prefix ''CREATE TABLE '' sql of
        Some rest \<Rightarrow> Inr (d\<lparr>catalog := catalog d @ [(''table'', object_name rest, sql)]\<rparr>)
      | None \<Rightarrow>
     (case strip_prefix ''CREATE INDEX '' sql of
        Some rest \<Rightarrow> Inr (d\<lparr>catalog := catalog d @ [(''index'', object_name rest, sql)]\<rparr>)
      | None \<Rightarrow>
     (case strip_prefix ''PRAGMA user_version = '' sql of
        Some n \<Rightarrow> Inr (d\<lparr>user_version := parse_number n\<rparr>)
      | None \<Rightarrow> Inr d))))))"

definition mini_pragma :: "mini_db \<Rightarrow> string \<Rightarrow> int option" where
  "mini_pragma d p =
     (if p = ''user_version'' then Some (user_version d)
      else if p = ''foreign_keys'' then Some (foreign_keys d)
      else None)"

definition mini :: "mini_db runtime" where
  "mini =
     \<lparr>memory = \<lparr>catalog = [], user_version = 0, foreign_keys = 0, violations = 0\<rparr>,
      exec = mini_run,
      run = mini_run,
      sqlite_master = catalog,
      pragma_value = mini_pragma,
      table_info = (\<lambda>d t. Inr []),
      foreign_key_check = violations,
      RegExp_replace = (\<lambda>pattern replacement s. Inr s)\<rparr>"

text \<open>
  SQLite reads a double-quoted name in \<open>CREATE TABLE\<close> as the name without the
  quotes, and an unquoted \<open>main.t\<close> in \<open>DROP TABLE\<close> as the table \<open>t\<close> of the schema
  \<open>main\<close>. \<open>mini_qualified\<close> is \<open>mini\<close> with these two readings.
\<close>

definition unquoted :: "string \<Rightarrow> string" where
  "unquoted n =
     (if 2 \<le> length n \<and> hd n = CHR 0x22 \<and> last n = CHR 0x22 then butlast (tl n) else n)"

definition referenced_table :: "string \<Rightarrow> string" where
  "referenced_table r =
     (case strip_prefix ''main.'' r of Some t \<Rightarrow> unquoted t | None \<Rightarrow> unquoted r)"

definition qualified_run :: "mini_db \<Rightarrow> string \<Rightarrow> string + mini_db" where
  "qualified_run d sql =
     (case strip_prefix ''DROP TABLE IF EXISTS '' sql of
        Some r \<Rightarrow> Inr (drop_object ''table'' (referenced_table r) d)
      | None \<Rightarrow>
     (case strip_prefix ''CREATE TABLE '' sql of
        Some rest \<Rightarrow>
          Inr (d\<lparr>catalog := catalog d @ [(''table'', unquoted (object_name rest), sql)]\<rparr>)
      | None \<Rightarrow> mini_run d sql))"

definition mini_qualified :: "mini_db runtime" where
  "mini_qualified = mini\<lparr>exec := qualified_run, run := qualified_run\<rparr>"

definition mini_migrator :: "mini_db \<Rightarrow> mini_db \<Rightarrow> bool \<Rightarrow> mini_db DBMigrator" where
  "mini_migrator d p allow =
     \<lparr>db = d, schema = [], allowDeletions = allow, pristine = p, nChanges = 0,
      origForeignKeys = None, executed = []\<rparr>"

section \<open>What every step keeps\<close>

text \<open>
  No step changes the target database or the flag, and every step only appends to the
  list of executed statements, one per increment of \<open>nChanges\<close>.
\<close>

definition extends :: "'db DBMigrator \<Rightarrow> 'db DBMigrator \<Rightarrow> bool" where
  "extends st st' =
     (pristine st' = pristine st \<and> allowDeletions st' = allowDeletions st \<and>
      (\<exists>ys. executed st' = executed st @ ys \<and> nChanges st' = nChanges st + length ys))"

text \<open>
  Whether a table is gone after the cleanup is the engine's doing. \<open>drops_remove E names\<close>
  says it of the statements that the cleanup issues for \<open>names\<close>: a successful
  \<open>DROP TABLE IF EXISTS n\<close>, with \<open>n\<close> written as the cleanup writes it (unquoted),
  leaves no table \<open>n\<close> and adds no table. SQLite does so for a name that needs no
  quoting; for a name such as \<open>main.t_migration_new\<close> it does not.
\<close>

definition drops_remove :: "'db runtime \<Rightarrow> string list \<Rightarrow> bool" where
  "drops_remove E names =
     (\<forall>n \<in> set names. \<forall>d d'. run E d (''DROP TABLE IF EXISTS '' @ n) = Inr d' \<longrightarrow>
        fst ` set (query_tables E d') \<subseteq> fst ` set (query_tables E d) - {n})"

section \<open>The shape of a canonical form\<close>

text \<open>
  What the steps of \<open>normaliseSql\<close> establish, for the proofs about its result: every
  whitespace character is a plain space (\<open>plain_spaces\<close>), and no two neighbours are a
  space and a space, a space and one of \<open>( ) ,\<close>, or one of \<open>( ) ,\<close> and a space
  (\<open>ok_pair\<close>).
\<close>

definition ok_pair :: "char \<Rightarrow> char \<Rightarrow> bool" where
  "ok_pair a b = (\<not> (is_blank a \<and> (is_blank b \<or> is_punct b)) \<and> \<not> (is_punct a \<and> is_blank b))"

definition plain_spaces :: "string \<Rightarrow> bool" where
  "plain_spaces s = (\<forall>c \<in> set s. is_space c \<longrightarrow> is_blank c)"


section \<open>Sets and Maps\<close>

lemma set_fold_Set_add: "set (fold Set_add xs acc) = set xs \<union> set acc"
  by (induction xs arbitrary: acc) (auto simp: Set_add_def)

lemma set_new_Set: "set (new_Set xs) = set xs"
  by (simp add: new_Set_def set_fold_Set_add)

lemma set_fold_Set_delete: "set (fold Set_delete ks s) = set s - set ks"
  by (induction ks arbitrary: s) (auto simp: Set_delete_def)

lemma keys_fold_update:
  "fst ` set (fold (\<lambda>(k, v). AList.update k v) es acc) = fst ` set es \<union> fst ` set acc"
  by (induction es arbitrary: acc) (auto simp: dom_update split: prod.splits)

lemma set_Map_keys_new_Map: "set (Map_keys (new_Map es)) = fst ` set es"
  by (simp add: Map_keys_def new_Map_def keys_fold_update)

lemma set_removedTables_of:
  "set (removedTables_of pristineTables tables) =
     {n \<in> set (Map_keys tables) - set (Map_keys pristineTables). \<not> endsWith n ''_migration_new''}"
  by (auto simp: removedTables_of_def set_fold_Set_delete set_new_Set)

lemma set_newTables_of:
  "set (newTables_of pristineTables tables) = set (Map_keys pristineTables) - set (Map_keys tables)"
  by (auto simp: newTables_of_def set_fold_Set_delete set_new_Set)

section \<open>Evaluation of the examples\<close>

lemmas mini_simps = mini_def mini_run_def mini_pragma_def mini_migrator_def strip_prefix_def
  object_name_def drop_object_def parse_number_def mini_qualified_def qualified_run_def
  referenced_table_def unquoted_def

lemmas js_simps = new_Map_def new_Set_def Set_add_def Set_delete_def Map_keys_def Map_get_def
  Map_has_def endsWith_def trim_def is_space_def

lemmas migrate_simps = migrate_def migrate_plan_def migrate_objects_def migrate_tables_def migrateIndices_def
  migrateIndex_def dropObsoleteIndex_def migratePragma_def foreignKeyCheck_def cleanup_def
  dropLeftover_def createTable_def dropTable_def rebuildTable_def migrateData_def
  copyColumns_def logExecute_def andThen_def
  newTables_of_def removedTables_of_def modifiedTables_of_def query_tables_def query_indices_def
  query_leftover_def pragma_get_def truthy_def template_of_def like_migration_new_def
  sql_lower_def

section \<open>Sequencing and the statements executed\<close>

lemma extends_refl: "extends st st"
  by (simp add: extends_def)

lemma extends_trans: "extends a b \<Longrightarrow> extends b c \<Longrightarrow> extends a c"
  by (auto simp: extends_def)

lemma andThen_None:
  "andThen f g st = (None, st') \<longleftrightarrow> (\<exists>st1. f st = (None, st1) \<and> g st1 = (None, st'))"
  by (cases "f st") (auto simp: andThen_def split: option.splits)

lemma andThen_assoc: "andThen f (andThen g h) st = andThen (andThen f g) h st"
  by (cases "f st") (auto simp: andThen_def split: option.splits prod.splits)

lemma logExecute_extends: "logExecute E msg sql st = (r, st') \<Longrightarrow> extends st st'"
  by (auto simp: logExecute_def extends_def split: if_splits sum.splits)

lemma andThen_extends:
  assumes "\<And>s r s'. f s = (r, s') \<Longrightarrow> extends s s'"
    and "\<And>s r s'. g s = (r, s') \<Longrightarrow> extends s s'"
    and "andThen f g st = (r, st')"
  shows "extends st st'"
proof (cases "f st")
  case (Pair r1 st1)
  then have 1: "extends st st1" by (rule assms(1))
  show ?thesis
  proof (cases r1)
    case None
    with Pair assms(3) have "g st1 = (r, st')" by (simp add: andThen_def)
    then have "extends st1 st'" by (rule assms(2))
    with 1 show ?thesis by (rule extends_trans)
  next
    case (Some e)
    with Pair assms(3) have "st' = st1" by (simp add: andThen_def)
    with 1 show ?thesis by simp
  qed
qed

lemma forEach_extends:
  assumes "\<And>x s r s'. f x s = (r, s') \<Longrightarrow> extends s s'"
  shows "forEach f xs st = (r, st') \<Longrightarrow> extends st st'"
proof (induction xs arbitrary: st)
  case Nil
  then show ?case by (simp add: extends_refl)
next
  case (Cons x xs)
  show ?case
  proof (cases "f x st")
    case (Pair r1 st1)
    then have 1: "extends st st1" by (rule assms)
    show ?thesis
    proof (cases r1)
      case None
      with Pair Cons.prems have "forEach f xs st1 = (r, st')" by simp
      then have "extends st1 st'" by (rule Cons.IH)
      with 1 show ?thesis by (rule extends_trans)
    next
      case (Some e)
      with Pair Cons.prems have "st' = st1" by simp
      with 1 show ?thesis by simp
    qed
  qed
qed

lemma createTable_extends: "createTable E pT n st = (r, st') \<Longrightarrow> extends st st'"
  by (auto simp: createTable_def extends_refl split: option.splits if_splits
      dest: logExecute_extends)

lemma dropTable_extends: "dropTable E n st = (r, st') \<Longrightarrow> extends st st'"
  by (auto simp: dropTable_def dest: logExecute_extends)

lemma migrateData_extends: "migrateData E n st = (r, st') \<Longrightarrow> extends st st'"
  by (auto simp: migrateData_def Let_def extends_refl split: sum.splits if_splits
      elim!: andThen_extends [rotated 2] dest: logExecute_extends)

lemma rebuildTable_extends: "rebuildTable E pT n st = (r, st') \<Longrightarrow> extends st st'"
  by (auto simp: rebuildTable_def extends_refl split: option.splits sum.splits if_splits
      elim!: andThen_extends [rotated 2] dest: logExecute_extends migrateData_extends)

lemma migrate_tables_extends: "migrate_tables E pT T st = (r, st') \<Longrightarrow> extends st st'"
  unfolding migrate_tables_def
  by (erule andThen_extends [rotated 2] forEach_extends [rotated]
      createTable_extends dropTable_extends rebuildTable_extends)+

lemma dropObsoleteIndex_extends: "dropObsoleteIndex E pI n st = (r, st') \<Longrightarrow> extends st st'"
  by (auto simp: dropObsoleteIndex_def extends_refl split: if_splits dest: logExecute_extends)

lemma migrateIndex_extends: "migrateIndex E indices entry st = (r, st') \<Longrightarrow> extends st st'"
  by (auto simp: migrateIndex_def extends_refl split: prod.splits if_splits
      elim!: andThen_extends [rotated 2] dest: logExecute_extends)

lemma migrateIndices_extends: "migrateIndices E pI st = (r, st') \<Longrightarrow> extends st st'"
  unfolding migrateIndices_def Let_def
  by (erule andThen_extends [rotated 2] forEach_extends [rotated]
      dropObsoleteIndex_extends migrateIndex_extends)+

lemma migratePragma_extends: "migratePragma E p st = (r, st') \<Longrightarrow> extends st st'"
  by (auto simp: migratePragma_def Let_def extends_refl split: option.splits if_splits
      dest: logExecute_extends)

lemma migrate_objects_extends: "migrate_objects E pT pI T st = (r, st') \<Longrightarrow> extends st st'"
proof -
  assume a: "migrate_objects E pT pI T st = (r, st')"
  show ?thesis
  proof (cases "run E (db st) ''PRAGMA defer_foreign_keys = TRUE''")
    case (Inl e)
    with a show ?thesis by (simp add: migrate_objects_def extends_refl)
  next
    case (Inr d)
    with a have "andThen (migrate_tables E pT T) (migrateIndices E pI) (st\<lparr>db := d\<rparr>) = (r, st')"
      by (simp add: migrate_objects_def)
    then have "extends (st\<lparr>db := d\<rparr>) st'"
      by (rule andThen_extends [rotated 2]) (auto dest: migrate_tables_extends migrateIndices_extends)
    then show ?thesis by (simp add: extends_def)
  qed
qed

lemma migrate_plan_extends: "migrate_plan E pT pI T st = (r, st') \<Longrightarrow> extends st st'"
  unfolding migrate_plan_def
  by (erule andThen_extends [rotated 2] migrate_objects_extends migratePragma_extends)+

text \<open>
  The row of \<open>PRAGMA foreign_keys\<close> has the one key \<open>foreign_keys\<close>, so reading it at
  the key \<open>0\<close> gives \<open>undefined\<close> and the foreign-key check is skipped.
\<close>

lemma foreignKeyCheck_skips: "foreignKeyCheck E st = (None, st)"
  by (simp add: foreignKeyCheck_def pragma_get_def truthy_def split: option.splits)

section \<open>The leftover cleanup\<close>

lemma trim_nonempty: "\<not> is_space c \<Longrightarrow> trim (c # s) \<noteq> []"
  by (simp add: trim_def)

lemma logExecute_nonblank:
  assumes "sql \<noteq> []" and "trim sql \<noteq> []"
  shows "logExecute E msg sql st =
     (case run E (db st) sql of
        Inl e \<Rightarrow> (Some (ExecutionError e), st)
      | Inr d \<Rightarrow>
          (None, st\<lparr>db := d, nChanges := nChanges st + 1, executed := executed st @ [sql]\<rparr>))"
  using assms by (simp add: logExecute_def)

lemma logExecute_None:
  assumes "logExecute E msg sql st = (None, st')" and "sql \<noteq> []" and "trim sql \<noteq> []"
  shows "\<exists>d. run E (db st) sql = Inr d \<and>
     st' = st\<lparr>db := d, nChanges := nChanges st + 1, executed := executed st @ [sql]\<rparr>"
  using assms by (auto simp: logExecute_def split: sum.splits)

lemma forEach_Cons_None:
  "forEach f (x # xs) st = (None, st') \<longleftrightarrow>
     (\<exists>st1. f x st = (None, st1) \<and> forEach f xs st1 = (None, st'))"
  by (cases "f x st") (auto split: option.splits)

lemma drop_statement_nonblank:
  "''DROP TABLE IF EXISTS '' @ n \<noteq> [] \<and> trim (''DROP TABLE IF EXISTS '' @ n) \<noteq> []"
  by (simp add: trim_nonempty is_space_def)

lemma dropLeftover_None:
  assumes "dropLeftover E n st = (None, st')"
  shows "\<exists>d. run E (db st) (''DROP TABLE IF EXISTS '' @ n) = Inr d \<and>
     st' = st\<lparr>db := d, nChanges := nChanges st + 1,
              executed := executed st @ [''DROP TABLE IF EXISTS '' @ n]\<rparr>"
  using assms drop_statement_nonblank [of n] unfolding dropLeftover_def
  by (blast dest: logExecute_None)

lemma forEach_dropLeftover_executed:
  "forEach (dropLeftover E) ns st = (None, st') \<Longrightarrow>
     executed st' = executed st @ map (\<lambda>n. ''DROP TABLE IF EXISTS '' @ n) ns"
proof (induction ns arbitrary: st)
  case Nil
  then show ?case by simp
next
  case (Cons n ns)
  from Cons.prems obtain st1 where
    step: "dropLeftover E n st = (None, st1)" and
    rest: "forEach (dropLeftover E) ns st1 = (None, st')"
    unfolding forEach_Cons_None by blast
  from dropLeftover_None [OF step]
  have "executed st1 = executed st @ [''DROP TABLE IF EXISTS '' @ n]" by auto
  with Cons.IH [OF rest] show ?case by simp
qed

lemma like_migration_new_suffix:
  assumes "endsWith n ''_migration_new''"
  shows "like_migration_new n"
proof -
  have l: "length ''_migration_new'' = (14::nat)" by simp
  from assms have "14 \<le> length n" and suf: "drop (length n - 14) n = ''_migration_new''"
    unfolding endsWith_def l by simp_all
  then show ?thesis
    unfolding like_migration_new_def Let_def suf
    by (simp add: sql_lower_def)
qed

lemma leftover_has_suffix_tables:
  assumes "(''table'', n, s) \<in> set (sqlite_master E d)" and "endsWith n ''_migration_new''"
  shows "n \<in> set (query_leftover E d)"
  using assms(1) like_migration_new_suffix [OF assms(2)]
  by (force simp: query_leftover_def)

lemma migrate_success:
  assumes "migrate E st = (None, st')"
  shows "\<exists>st1. andThen (migrate_plan E (new_Map (query_tables E (pristine st)))
                  (new_Map (query_indices E (pristine st))) (new_Map (query_tables E (db st))))
               (foreignKeyCheck E) st = (None, st1) \<and> cleanup E st1 = (None, st')"
proof -
  from assms have
    "andThen (migrate_plan E (new_Map (query_tables E (pristine st)))
                (new_Map (query_indices E (pristine st))) (new_Map (query_tables E (db st))))
       (andThen (foreignKeyCheck E) (cleanup E)) st = (None, st')"
    by (simp add: migrate_def Let_def split: if_splits)
  then show ?thesis
    by (simp add: andThen_assoc) (simp add: andThen_None [of _ "cleanup E"])
qed

lemma cleanup_extends: "cleanup E st = (r, st') \<Longrightarrow> extends st st'"
  unfolding cleanup_def dropLeftover_def
  by (erule forEach_extends [rotated]) (rule logExecute_extends)

lemma migrate_extends: "migrate E st = (r, st') \<Longrightarrow> extends st st'"
  unfolding migrate_def Let_def
  by (auto simp: extends_refl foreignKeyCheck_skips split: if_splits
      elim!: andThen_extends [rotated 2] dest: migrate_plan_extends cleanup_extends)

lemma cleanup_executed:
  "cleanup E st = (None, st') \<Longrightarrow>
     executed st' = executed st @ map (\<lambda>n. ''DROP TABLE IF EXISTS '' @ n) (query_leftover E (db st))"
  unfolding cleanup_def by (rule forEach_dropLeftover_executed)

lemma forEach_dropLeftover_tables:
  "drops_remove E ns \<Longrightarrow> forEach (dropLeftover E) ns st = (None, st') \<Longrightarrow>
     fst ` set (query_tables E (db st')) \<subseteq> fst ` set (query_tables E (db st)) - set ns"
proof (induction ns arbitrary: st)
  case Nil
  then show ?case by simp
next
  case (Cons n ns)
  from Cons.prems(1) have engine: "drops_remove E ns"
    and here: "\<And>d d'. run E d (''DROP TABLE IF EXISTS '' @ n) = Inr d' \<Longrightarrow>
      fst ` set (query_tables E d') \<subseteq> fst ` set (query_tables E d) - {n}"
    by (simp_all add: drops_remove_def)
  from Cons.prems(2) obtain st1 where
    step: "dropLeftover E n st = (None, st1)" and
    rest: "forEach (dropLeftover E) ns st1 = (None, st')"
    unfolding forEach_Cons_None by blast
  from dropLeftover_None [OF step] obtain d where
    "run E (db st) (''DROP TABLE IF EXISTS '' @ n) = Inr d" and "db st1 = d"
    by auto
  with here have "fst ` set (query_tables E (db st1)) \<subseteq> fst ` set (query_tables E (db st)) - {n}"
    by blast
  with Cons.IH [OF engine rest] show ?case by auto
qed

lemma query_tables_in_master:
  "n \<in> fst ` set (query_tables E d) \<Longrightarrow> \<exists>s. (''table'', n, s) \<in> set (sqlite_master E d)"
  by (auto simp: query_tables_def)

lemma cleanup_removes_reserved:
  assumes "drops_remove E (query_leftover E (db st))" and "cleanup E st = (None, st')"
    and "endsWith t ''_migration_new''"
  shows "t \<notin> fst ` set (query_tables E (db st'))"
proof
  assume t: "t \<in> fst ` set (query_tables E (db st'))"
  from forEach_dropLeftover_tables [OF assms(1) assms(2) [unfolded cleanup_def]]
  have sub: "fst ` set (query_tables E (db st')) \<subseteq>
      fst ` set (query_tables E (db st)) - set (query_leftover E (db st))" .
  with t have tin: "t \<in> fst ` set (query_tables E (db st))"
    and no: "t \<notin> set (query_leftover E (db st))"
    by auto
  from query_tables_in_master [OF tin]
  obtain s where "(''table'', t, s) \<in> set (sqlite_master E (db st))" ..
  from leftover_has_suffix_tables [OF this assms(3)] no show False by simp
qed

lemma createTable_executes:
  assumes "createTable E pT n st = (None, st')"
    and "Map_get pT n = Some sql" and "sql \<noteq> []" and "trim sql \<noteq> []"
  shows "executed st' = executed st @ [sql]"
  using assms by (auto simp: createTable_def dest: logExecute_None)

lemma forEach_createTable_executes:
  assumes "Map_get pT n = Some sql" and "sql \<noteq> []" and "trim sql \<noteq> []"
  shows "forEach (createTable E pT) ns st = (None, st') \<Longrightarrow> n \<in> set ns \<Longrightarrow>
     \<exists>xs ys. executed st' = executed st @ xs @ [sql] @ ys"
proof (induction ns arbitrary: st)
  case Nil
  then show ?case by simp
next
  case (Cons m ns)
  from Cons.prems(1) obtain st1 where
    step: "createTable E pT m st = (None, st1)" and
    rest: "forEach (createTable E pT) ns st1 = (None, st')"
    unfolding forEach_Cons_None by blast
  show ?case
  proof (cases "m = n")
    case True
    with step assms have "executed st1 = executed st @ [sql]"
      by (simp add: createTable_executes)
    moreover from rest have "extends st1 st'"
      by (rule forEach_extends [rotated]) (rule createTable_extends)
    ultimately show ?thesis
      by (auto simp: extends_def intro: exI [of _ "[]"])
  next
    case False
    with Cons.prems(2) have "n \<in> set ns" by simp
    from Cons.IH [OF rest this] obtain xs ys where
      "executed st' = executed st1 @ xs @ [sql] @ ys" by blast
    moreover from step have "extends st st1" by (rule createTable_extends)
    ultimately show ?thesis
      unfolding extends_def by (metis append.assoc)
  qed
qed

lemma Map_get_new_Map_key: "Map_get (new_Map es) k = Some v \<Longrightarrow> k \<in> fst ` set es"
  using set_Map_keys_new_Map [of es]
  by (auto simp: Map_get_def Map_keys_def dest!: map_of_SomeD) force

lemma migrate_plan_None:
  assumes "migrate_plan E pT pI T st = (None, st1)"
  shows "\<exists>d sa. run E (db st) ''PRAGMA defer_foreign_keys = TRUE'' = Inr d \<and>
     forEach (createTable E pT) (newTables_of pT T) (st\<lparr>db := d\<rparr>) = (None, sa) \<and>
     extends sa st1"
proof -
  from assms obtain s2 where
    obj: "migrate_objects E pT pI T st = (None, s2)" and
    prag: "migratePragma E ''user_version'' s2 = (None, st1)"
    unfolding migrate_plan_def andThen_None by blast
  from obj obtain d where
    run: "run E (db st) ''PRAGMA defer_foreign_keys = TRUE'' = Inr d" and
    rest: "andThen (migrate_tables E pT T) (migrateIndices E pI) (st\<lparr>db := d\<rparr>) = (None, s2)"
    by (auto simp: migrate_objects_def split: sum.splits)
  from rest obtain s3 where
    tabs: "migrate_tables E pT T (st\<lparr>db := d\<rparr>) = (None, s3)" and
    idx: "migrateIndices E pI s3 = (None, s2)"
    unfolding andThen_None by blast
  from tabs obtain sa where
    create: "forEach (createTable E pT) (newTables_of pT T) (st\<lparr>db := d\<rparr>) = (None, sa)" and
    more: "andThen (forEach (dropTable E) (removedTables_of pT T))
          (forEach (rebuildTable E pT) (modifiedTables_of pT T)) sa = (None, s3)"
    unfolding migrate_tables_def andThen_None by blast
  from more have "extends sa s3"
    by (rule andThen_extends [rotated 2])
      (erule forEach_extends [rotated] dropTable_extends rebuildTable_extends)+
  moreover from idx have "extends s3 s2" by (rule migrateIndices_extends)
  moreover from prag have "extends s2 st1" by (rule migratePragma_extends)
  ultimately have "extends sa st1" by (blast intro: extends_trans)
  with run create show ?thesis by blast
qed

lemma strip_prefix_append: "strip_prefix p (p @ s) = Some s"
  by (simp add: strip_prefix_def)

lemma mini_drops_remove: "drops_remove mini names"
proof -
  have "run mini d (''DROP TABLE IF EXISTS '' @ n) = Inr (drop_object ''table'' n d)" for d n
    unfolding mini_def mini_run_def by (simp only: strip_prefix_append runtime.simps option.case)
  moreover have "fst ` set (query_tables mini (drop_object ''table'' n d)) \<subseteq>
      fst ` set (query_tables mini d) - {n}" for d n
    by (force simp: query_tables_def mini_def drop_object_def)
  ultimately show ?thesis
    unfolding drops_remove_def by auto
qed

lemma pragma_statement_nonblank:
  "''PRAGMA '' @ p @ '' = '' @ v \<noteq> [] \<and> trim (''PRAGMA '' @ p @ '' = '' @ v) \<noteq> []"
  by (simp add: trim_nonempty is_space_def)

lemma migratePragma_differs:
  assumes "pragma_value E (pristine st) p = Some target"
    and "pragma_value E (db st) p = Some current"
    and "current \<noteq> target"
  shows "migratePragma E p st =
     (case run E (db st) (''PRAGMA '' @ p @ '' = '' @ number_toString target) of
        Inl e \<Rightarrow> (Some (ExecutionError e), st)
      | Inr d \<Rightarrow>
          (None, st\<lparr>db := d, nChanges := nChanges st + 1,
                     executed := executed st @ [''PRAGMA '' @ p @ '' = '' @ number_toString target]\<rparr>))"
proof -
  have "migratePragma E p st =
      logExecute E (''Set '' @ p @ '' to '' @ number_toString target @ '' from '' @
                    number_toString current)
        (''PRAGMA '' @ p @ '' = '' @ number_toString target) st"
    using assms by (simp add: migratePragma_def pragma_get_def template_of_def)
  also have "\<dots> = (case run E (db st) (''PRAGMA '' @ p @ '' = '' @ number_toString target) of
        Inl e \<Rightarrow> (Some (ExecutionError e), st)
      | Inr d \<Rightarrow>
          (None, st\<lparr>db := d, nChanges := nChanges st + 1,
                     executed := executed st @ [''PRAGMA '' @ p @ '' = '' @ number_toString target]\<rparr>))"
    using pragma_statement_nonblank [of p "number_toString target"]
    by (intro logExecute_nonblank) blast+
  finally show ?thesis .
qed

lemma drop_index_nonblank:
  "''DROP INDEX '' @ n \<noteq> [] \<and> trim (''DROP INDEX '' @ n) \<noteq> []"
  by (simp add: trim_nonempty is_space_def)










lemma logExecute_executed:
  "logExecute E msg sql st = (r, st') \<Longrightarrow>
     executed st' = executed st \<or> executed st' = executed st @ [sql]"
  by (auto simp: logExecute_def split: if_splits sum.splits)

lemma forEach_dropTable_executed:
  "forEach (dropTable E) ns st = (r, st') \<Longrightarrow>
     \<exists>ys. executed st' = executed st @ ys \<and>
          set ys \<subseteq> (\<lambda>n. ''DROP TABLE '' @ n) ` set ns"
proof (induction ns arbitrary: st)
  case Nil
  then show ?case by simp
next
  case (Cons n ns)
  obtain r1 st1 where step: "dropTable E n st = (r1, st1)" by (cases "dropTable E n st")
  then have "logExecute E (''Drop table '' @ n) (''DROP TABLE '' @ n) st = (r1, st1)"
    by (simp add: dropTable_def)
  from logExecute_executed [OF this] obtain ws where
    ws: "executed st1 = executed st @ ws" "set ws \<subseteq> {''DROP TABLE '' @ n}"
    by (auto intro: that [of "[]"] that [of "[''DROP TABLE '' @ n]"])
  show ?case
  proof (cases r1)
    case None
    with step Cons.prems have "forEach (dropTable E) ns st1 = (r, st')" by simp
    from Cons.IH [OF this] obtain ys where
      "executed st' = executed st1 @ ys" "set ys \<subseteq> (\<lambda>n. ''DROP TABLE '' @ n) ` set ns"
      by blast
    with ws have "executed st' = executed st @ (ws @ ys)"
      and "set (ws @ ys) \<subseteq> (\<lambda>n. ''DROP TABLE '' @ n) ` set (n # ns)"
      by auto
    then show ?thesis by blast
  next
    case (Some e)
    with step Cons.prems have "st' = st1" by simp
    with ws have "executed st' = executed st @ ws"
      and "set ws \<subseteq> (\<lambda>n. ''DROP TABLE '' @ n) ` set (n # ns)"
      by auto
    then show ?thesis by blast
  qed
qed

section \<open>The result of normaliseSql\<close>

lemma is_blank_space: "is_blank c \<Longrightarrow> is_space c"
  by (simp add: is_blank_def is_space_def)

lemma is_punct_not_blank: "is_punct c \<Longrightarrow> \<not> is_blank c"
  by (auto simp: is_punct_def is_blank_def)

lemma is_word_plain: "is_word c \<Longrightarrow> \<not> is_blank c \<and> \<not> is_punct c \<and> \<not> is_space c"
  by (auto simp: is_word_def is_blank_def is_punct_def is_space_def Let_def)

lemma ok_pair_left: "\<not> is_blank a \<Longrightarrow> \<not> is_punct a \<Longrightarrow> ok_pair a b"
  by (simp add: ok_pair_def)

lemma ok_pair_right: "\<not> is_blank b \<Longrightarrow> \<not> is_punct b \<Longrightarrow> ok_pair a b"
  by (simp add: ok_pair_def)

subsection \<open>after collapse_whitespace\<close>

lemma collapse_whitespace_plain: "plain_spaces (collapse_whitespace s)"
  by (induction s rule: collapse_whitespace.induct) (auto simp: plain_spaces_def is_blank_def)

lemma collapse_whitespace_Nil: "collapse_whitespace s = [] \<longleftrightarrow> s = []"
  by (cases s) auto

lemma collapse_whitespace_hd:
  "s \<noteq> [] \<Longrightarrow> \<not> is_space (hd s) \<Longrightarrow> hd (collapse_whitespace s) = hd s"
  by (cases s) auto

lemma collapse_whitespace_single:
  "successively (\<lambda>a b. \<not> (is_blank a \<and> is_blank b)) (collapse_whitespace s)"
proof (induction s rule: collapse_whitespace.induct)
  case 1
  then show ?case by simp
next
  case (2 c cs)
  show ?case
  proof (cases "is_space c")
    case True
    let ?u = "dropWhile is_space cs"
    have "collapse_whitespace ?u = [] \<or> \<not> is_blank (hd (collapse_whitespace ?u))"
    proof (cases "?u = []")
      case True
      then have "collapse_whitespace ?u = []"
        by (simp only: collapse_whitespace.simps)
      then show ?thesis ..
    next
      case False
      then have "\<not> is_space (hd ?u)" by (rule hd_dropWhile)
      with False have "hd (collapse_whitespace ?u) = hd ?u" and "\<not> is_blank (hd ?u)"
        by (auto simp: collapse_whitespace_hd dest: is_blank_space)
      then show ?thesis by simp
    qed
    with True 2 show ?thesis
      by (auto simp: successively_Cons)
  next
    case False
    then have "\<not> is_blank c" by (auto dest: is_blank_space)
    with False 2 show ?thesis
      by (auto simp: successively_Cons)
  qed
qed
subsection \<open>after tighten_punctuation\<close>

lemma successively_dropWhile: "successively P xs \<Longrightarrow> successively P (dropWhile Q xs)"
  using successively_append_iff [of P "takeWhile Q xs" "dropWhile Q xs"] by simp

lemma successively_tl: "successively P xs \<Longrightarrow> successively P (tl xs)"
  by (cases xs) (auto simp: successively_Cons)

lemma tighten_plain:
  "\<not> is_blank x \<Longrightarrow> \<not> is_punct x \<Longrightarrow> tighten_punctuation (x # xs) = x # tighten_punctuation xs"
  by simp

lemma tighten_punct:
  "is_punct x \<Longrightarrow>
     tighten_punctuation (x # xs) = x # tighten_punctuation (dropWhile is_blank xs)"
  by (simp add: is_punct_not_blank)

lemma tighten_hd:
  assumes "u \<noteq> []" and "\<not> is_blank (hd u)"
  shows "tighten_punctuation u \<noteq> [] \<and> \<not> is_blank (hd (tighten_punctuation u))"
proof -
  from assms obtain x xs where u: "u = x # xs" and x: "\<not> is_blank x"
    by (cases u) auto
  show ?thesis
  proof (cases "is_punct x")
    case True
    then show ?thesis unfolding u by (simp add: tighten_punct x del: tighten_punctuation.simps)
  next
    case False
    with x show ?thesis unfolding u by (simp add: tighten_plain del: tighten_punctuation.simps)
  qed
qed

lemma set_tighten: "set (tighten_punctuation s) \<subseteq> set s"
proof (induction s rule: length_induct)
  case (1 s)
  show ?case
  proof (cases s)
    case Nil
    then show ?thesis by simp
  next
    case (Cons c cs)
    have ih: "set (tighten_punctuation ys) \<subseteq> set ys" if "length ys \<le> length cs" for ys
      using 1 that Cons by simp
    show ?thesis
    proof (cases "dropWhile is_blank (c # cs)")
      case Nil
      then have "tighten_punctuation (c # cs) = c # tighten_punctuation cs"
        by (simp only: tighten_punctuation.simps list.case)
      with Cons ih [of cs] show ?thesis by auto
    next
      case dw: (Cons p rest)
      have p: "p \<in> set s" and rest: "set rest \<subseteq> set s"
        using set_dropWhileD [of _ is_blank "c # cs"] unfolding dw Cons by auto
      have len: "length rest \<le> length cs"
        using length_dropWhile_le [of is_blank "c # cs"] unfolding dw by simp
      have "set (tighten_punctuation (dropWhile is_blank rest)) \<subseteq> set rest"
        using ih [of "dropWhile is_blank rest"] len length_dropWhile_le [of is_blank rest]
          set_dropWhileD [of _ is_blank rest]
        by auto
      moreover have "tighten_punctuation (c # cs) =
          (if is_punct p then p # tighten_punctuation (dropWhile is_blank rest)
           else c # tighten_punctuation cs)"
        by (simp only: tighten_punctuation.simps dw list.case)
      ultimately show ?thesis
        using p rest ih [of cs] unfolding Cons by auto
    qed
  qed
qed

lemma tighten_ok:
  "successively (\<lambda>a b. \<not> (is_blank a \<and> is_blank b)) s \<Longrightarrow>
     successively ok_pair (tighten_punctuation s)"
proof (induction s rule: length_induct)
  case (1 s)
  let ?nd = "\<lambda>a b. \<not> (is_blank a \<and> is_blank b)"
  show ?case
  proof (cases s)
    case Nil
    then show ?thesis by simp
  next
    case (Cons c cs)
    have ih: "successively ok_pair (tighten_punctuation ys)"
      if "length ys \<le> length cs" and "successively ?nd ys" for ys
      using 1 that Cons by simp
    from "1.prems" Cons have nd_cs: "successively ?nd cs"
      and nd_hd: "cs = [] \<or> \<not> (is_blank c \<and> is_blank (hd cs))"
      by (auto simp: successively_Cons)
    have ok_cs: "successively ok_pair (tighten_punctuation cs)"
      using nd_cs by (simp add: ih)
    consider (blank) "is_blank c" | (punct) "is_punct c" | (plain) "\<not> is_blank c" "\<not> is_punct c"
      by blast
    then show ?thesis
    proof cases
      case plain
      then have "tighten_punctuation s = c # tighten_punctuation cs"
        unfolding Cons by (rule tighten_plain)
      with ok_cs plain show ?thesis
        by (simp add: successively_Cons ok_pair_left)
    next
      case punct
      let ?u = "dropWhile is_blank cs"
      have eq: "tighten_punctuation s = c # tighten_punctuation ?u"
        unfolding Cons using punct by (rule tighten_punct)
      have ok_u: "successively ok_pair (tighten_punctuation ?u)"
        using nd_cs by (intro ih length_dropWhile_le successively_dropWhile)
      have "tighten_punctuation ?u = [] \<or> ok_pair c (hd (tighten_punctuation ?u))"
      proof (cases "?u = []")
        case True
        then have "tighten_punctuation ?u = []"
          by (simp only: tighten_punctuation.simps)
        then show ?thesis ..
      next
        case False
        then have "\<not> is_blank (hd ?u)" by (rule hd_dropWhile)
        with False have "\<not> is_blank (hd (tighten_punctuation ?u))"
          by (simp add: tighten_hd)
        with punct show ?thesis
          by (simp add: ok_pair_def is_punct_not_blank)
      qed
      with ok_u show ?thesis unfolding eq
        by (auto simp: successively_Cons)
    next
      case blank
      show ?thesis
      proof (cases cs)
        case Nil
        with blank show ?thesis unfolding Cons by simp
      next
        case cs: (Cons x xs)
        with nd_hd blank have x: "\<not> is_blank x" by simp
        show ?thesis
        proof (cases "is_punct x")
          case True
          with blank x have "tighten_punctuation s = tighten_punctuation cs"
            unfolding Cons cs by simp
          with ok_cs show ?thesis by simp
        next
          case False
          with blank x have "tighten_punctuation s = c # tighten_punctuation cs"
            unfolding Cons cs by simp
          moreover from x False have "tighten_punctuation cs = x # tighten_punctuation xs"
            unfolding cs by (rule tighten_plain)
          ultimately show ?thesis
            using ok_cs x False by (simp add: successively_Cons ok_pair_right)
        qed
      qed
    qed
  qed
qed

subsection \<open>after remove_quotes\<close>

lemma set_dropWhile_subset: "set (dropWhile P xs) \<subseteq> set xs"
  by (auto dest: set_dropWhileD)

lemma set_tl_subset: "set (tl xs) \<subseteq> set xs"
  by (cases xs) auto

lemma remove_quotes_match:
  assumes "c = CHR 0x22" and "takeWhile is_word cs \<noteq> []"
    and "take 1 (dropWhile is_word cs) = [CHR 0x22]"
  shows "remove_quotes (c # cs) =
     takeWhile is_word cs @ remove_quotes (tl (dropWhile is_word cs))"
  using assms by simp

lemma remove_quotes_no_match:
  assumes "\<not> (c = CHR 0x22 \<and> takeWhile is_word cs \<noteq> [] \<and>
              take 1 (dropWhile is_word cs) = [CHR 0x22])"
  shows "remove_quotes (c # cs) = c # remove_quotes cs"
  using assms by auto

lemma words_ok: "\<forall>c \<in> set w. is_word c \<Longrightarrow> successively ok_pair w"
  by (induction w) (auto simp: successively_Cons ok_pair_left dest: is_word_plain)

lemma takeWhile_hd: "takeWhile P xs \<noteq> [] \<Longrightarrow> P (hd (takeWhile P xs))"
  by (cases xs) (auto split: if_splits)

lemma takeWhile_last: "takeWhile P xs \<noteq> [] \<Longrightarrow> P (last (takeWhile P xs))"
  using set_takeWhileD [of "last (takeWhile P xs)" P xs] by simp

lemma remove_quotes_hd:
  assumes "remove_quotes s \<noteq> []"
  shows "hd (remove_quotes s) = hd s \<or> is_word (hd (remove_quotes s))"
proof (cases s)
  case Nil
  with assms show ?thesis by simp
next
  case (Cons c cs)
  show ?thesis
  proof (cases "c = CHR 0x22 \<and> takeWhile is_word cs \<noteq> [] \<and>
                take 1 (dropWhile is_word cs) = [CHR 0x22]")
    case True
    then have "remove_quotes s =
        takeWhile is_word cs @ remove_quotes (tl (dropWhile is_word cs))"
      unfolding Cons by (intro remove_quotes_match) simp_all
    with True have "hd (remove_quotes s) = hd (takeWhile is_word cs)" by simp
    with True show ?thesis by (simp add: takeWhile_hd)
  next
    case False
    then have "remove_quotes s = c # remove_quotes cs"
      unfolding Cons by (rule remove_quotes_no_match)
    then show ?thesis by (simp add: Cons)
  qed
qed

lemma set_remove_quotes: "set (remove_quotes s) \<subseteq> set s"
proof (induction s rule: length_induct)
  case (1 s)
  show ?case
  proof (cases s)
    case Nil
    then show ?thesis by simp
  next
    case (Cons c cs)
    have ih: "set (remove_quotes ys) \<subseteq> set ys" if "length ys \<le> length cs" for ys
      using 1 that Cons by simp
    show ?thesis
    proof (cases "c = CHR 0x22 \<and> takeWhile is_word cs \<noteq> [] \<and>
                  take 1 (dropWhile is_word cs) = [CHR 0x22]")
      case True
      then have eq: "remove_quotes s =
          takeWhile is_word cs @ remove_quotes (tl (dropWhile is_word cs))"
        unfolding Cons by (intro remove_quotes_match) simp_all
      have "length (tl (dropWhile is_word cs)) \<le> length cs"
        using length_dropWhile_le [of is_word cs] by simp
      then have "set (remove_quotes (tl (dropWhile is_word cs))) \<subseteq> set (tl (dropWhile is_word cs))"
        by (rule ih)
      moreover have "set (tl (dropWhile is_word cs)) \<subseteq> set cs"
        using set_tl_subset [of "dropWhile is_word cs"] set_dropWhile_subset [of is_word cs]
        by (rule subset_trans)
      moreover have "set (takeWhile is_word cs) \<subseteq> set cs"
        using set_takeWhileD [of _ is_word cs] by auto
      ultimately have "set (takeWhile is_word cs @ remove_quotes (tl (dropWhile is_word cs)))
          \<subseteq> set cs"
        by auto
      then show ?thesis by (simp only: eq) (auto simp: Cons)
    next
      case False
      then have "remove_quotes s = c # remove_quotes cs"
        unfolding Cons by (rule remove_quotes_no_match)
      with ih [of cs] show ?thesis unfolding Cons by auto
    qed
  qed
qed

lemma remove_quotes_ok: "successively ok_pair s \<Longrightarrow> successively ok_pair (remove_quotes s)"
proof (induction s rule: length_induct)
  case (1 s)
  show ?case
  proof (cases s)
    case Nil
    then show ?thesis by simp
  next
    case (Cons c cs)
    have ih: "successively ok_pair (remove_quotes ys)"
      if "length ys \<le> length cs" and "successively ok_pair ys" for ys
      using 1 that Cons by simp
    from "1.prems" Cons have ok_cs: "successively ok_pair cs"
      and ok_hd: "cs = [] \<or> ok_pair c (hd cs)"
      by (auto simp: successively_Cons)
    show ?thesis
    proof (cases "c = CHR 0x22 \<and> takeWhile is_word cs \<noteq> [] \<and>
                  take 1 (dropWhile is_word cs) = [CHR 0x22]")
      case True
      let ?w = "takeWhile is_word cs"
      let ?r = "tl (dropWhile is_word cs)"
      from True have eq: "remove_quotes s = ?w @ remove_quotes ?r"
        unfolding Cons by (intro remove_quotes_match) simp_all
      have "\<forall>c \<in> set ?w. is_word c"
        by (auto dest: set_takeWhileD)
      then have w: "successively ok_pair ?w" by (rule words_ok)
      have "length ?r \<le> length cs"
        using length_dropWhile_le [of is_word cs] by simp
      moreover have "successively ok_pair ?r"
        using ok_cs by (intro successively_tl successively_dropWhile)
      ultimately have r: "successively ok_pair (remove_quotes ?r)" by (rule ih)
      from True have "is_word (last ?w)" by (simp add: takeWhile_last)
      then have "ok_pair (last ?w) b" for b
        by (auto intro: ok_pair_left dest: is_word_plain)
      with w r show ?thesis unfolding eq
        by (simp add: successively_append_iff)
    next
      case False
      then have eq: "remove_quotes s = c # remove_quotes cs"
        unfolding Cons by (rule remove_quotes_no_match)
      have r: "successively ok_pair (remove_quotes cs)"
        using ok_cs by (simp add: ih)
      have "remove_quotes cs = [] \<or> ok_pair c (hd (remove_quotes cs))"
      proof (cases "remove_quotes cs = []")
        case True
        then show ?thesis ..
      next
        case ne: False
        then have "cs \<noteq> []" by auto
        with ok_hd have "ok_pair c (hd cs)" by simp
        moreover from remove_quotes_hd [OF ne]
        have "hd (remove_quotes cs) = hd cs \<or> is_word (hd (remove_quotes cs))" .
        ultimately show ?thesis
          by (auto intro: ok_pair_right dest: is_word_plain)
      qed
      with r show ?thesis unfolding eq
        by (auto simp: successively_Cons)
    qed
  qed
qed

subsection \<open>after trim\<close>

lemma set_trim: "set (trim s) \<subseteq> set s"
proof -
  have "set (trim s) \<subseteq> set (rev (dropWhile is_space s))"
    unfolding trim_def
    using set_dropWhile_subset [of is_space "rev (dropWhile is_space s)"] by simp
  also have "\<dots> \<subseteq> set s"
    using set_dropWhile_subset [of is_space s] by simp
  finally show ?thesis .
qed

lemma trim_successively: "successively P s \<Longrightarrow> successively P (trim s)"
  unfolding trim_def
  by (simp add: successively_dropWhile)

lemma trim_edges:
  "trim s = [] \<or> (\<not> is_space (hd (trim s)) \<and> \<not> is_space (last (trim s)))"
proof (cases "trim s = []")
  case True
  then show ?thesis ..
next
  case False
  let ?a = "dropWhile is_space s"
  let ?b = "dropWhile is_space (rev ?a)"
  from False have b: "?b \<noteq> []" by (simp add: trim_def)
  then have "\<not> is_space (hd ?b)" by (rule hd_dropWhile)
  with b have last: "\<not> is_space (last (trim s))"
    by (simp add: trim_def last_rev)
  from b have a: "?a \<noteq> []"
    by (metis dropWhile.simps(1) rev.simps(1))
  then have ha: "\<not> is_space (hd ?a)" by (rule hd_dropWhile)
  have "rev ?a = takeWhile is_space (rev ?a) @ ?b" by simp
  then have "?a = rev ?b @ rev (takeWhile is_space (rev ?a))"
    by (metis rev_append rev_rev_ident)
  with b have "hd ?a = hd (rev ?b)"
    by (metis hd_append2 rev_is_Nil_conv)
  with ha have "\<not> is_space (hd (trim s))" by (simp add: trim_def)
  with last show ?thesis by simp
qed

lemma trim_fixed:
  assumes "t = [] \<or> (\<not> is_space (hd t) \<and> \<not> is_space (last t))"
  shows "trim t = t"
proof (cases "t = []")
  case True
  then show ?thesis by (simp add: trim_def)
next
  case False
  with assms have h: "\<not> is_space (hd t)" and l: "\<not> is_space (last t)" by auto
  from False h have 1: "dropWhile is_space t = t"
    by (simp add: dropWhile_eq_self_iff)
  from False l have 2: "dropWhile is_space (rev t) = rev t"
    by (simp add: dropWhile_eq_self_iff hd_rev)
  show ?thesis by (simp add: trim_def 1 2)
qed

subsection \<open>The steps on a canonical form\<close>

lemma plain_spaces_subset: "set a \<subseteq> set b \<Longrightarrow> plain_spaces b \<Longrightarrow> plain_spaces a"
  by (auto simp: plain_spaces_def)

lemma after_newline_None: "CHR 0x0A \<notin> set s \<Longrightarrow> after_newline s = None"
  by (induction s) auto

lemma remove_comments_fixed: "CHR 0x0A \<notin> set s \<Longrightarrow> remove_comments s = s"
  by (induction s rule: remove_comments.induct) (auto simp: after_newline_None)

lemma collapse_whitespace_fixed:
  "plain_spaces s \<Longrightarrow> successively (\<lambda>a b. \<not> (is_blank a \<and> is_blank b)) s \<Longrightarrow>
     collapse_whitespace s = s"
proof (induction s)
  case Nil
  then show ?case by simp
next
  case (Cons c cs)
  from Cons.prems have plain: "plain_spaces cs"
    and single: "successively (\<lambda>a b. \<not> (is_blank a \<and> is_blank b)) cs"
    and hd: "cs = [] \<or> \<not> (is_blank c \<and> is_blank (hd cs))"
    by (auto simp: plain_spaces_def successively_Cons)
  then have ih: "collapse_whitespace cs = cs" by (simp add: Cons.IH)
  show ?case
  proof (cases "is_space c")
    case True
    with Cons.prems(1) have c: "is_blank c" by (simp add: plain_spaces_def)
    have "dropWhile is_space cs = cs"
    proof (cases cs)
      case Nil
      then show ?thesis by simp
    next
      case (Cons x xs)
      with hd c have "\<not> is_blank x" by simp
      moreover from plain Cons have "is_space x \<longrightarrow> is_blank x" by (simp add: plain_spaces_def)
      ultimately show ?thesis using Cons by simp
    qed
    with True c ih show ?thesis by (simp add: is_blank_def)
  next
    case False
    with ih show ?thesis by simp
  qed
qed

lemma tighten_fixed: "successively ok_pair s \<Longrightarrow> tighten_punctuation s = s"
proof (induction s)
  case Nil
  then show ?case by simp
next
  case (Cons c cs)
  from Cons.prems have ok_cs: "successively ok_pair cs" and hd: "cs = [] \<or> ok_pair c (hd cs)"
    by (auto simp: successively_Cons)
  then have ih: "tighten_punctuation cs = cs" by (simp add: Cons.IH)
  consider (blank) "is_blank c" | (punct) "is_punct c" | (plain) "\<not> is_blank c" "\<not> is_punct c"
    by blast
  then show ?case
  proof cases
    case plain
    then have "tighten_punctuation (c # cs) = c # tighten_punctuation cs" by (rule tighten_plain)
    with ih show ?thesis by simp
  next
    case punct
    have "dropWhile is_blank cs = cs"
    proof (cases cs)
      case Nil
      then show ?thesis by simp
    next
      case (Cons x xs)
      with hd punct show ?thesis by (simp add: ok_pair_def)
    qed
    moreover from punct
    have "tighten_punctuation (c # cs) = c # tighten_punctuation (dropWhile is_blank cs)"
      by (rule tighten_punct)
    ultimately show ?thesis using ih by simp
  next
    case blank
    show ?thesis
    proof (cases cs)
      case Nil
      with blank show ?thesis by simp
    next
      case (Cons x xs)
      with hd blank have "\<not> is_blank x" and "\<not> is_punct x" by (simp_all add: ok_pair_def)
      with blank ih show ?thesis unfolding Cons by simp
    qed
  qed
qed

lemma normaliseSql_tidy:
  "plain_spaces (normaliseSql s) \<and> successively ok_pair (normaliseSql s) \<and>
   (normaliseSql s = [] \<or>
    (\<not> is_space (hd (normaliseSql s)) \<and> \<not> is_space (last (normaliseSql s))))"
proof (cases "s = []")
  case True
  then show ?thesis by (simp add: normaliseSql_def plain_spaces_def)
next
  case False
  let ?t1 = "collapse_whitespace (remove_comments s)"
  let ?t2 = "tighten_punctuation ?t1"
  let ?t3 = "remove_quotes ?t2"
  from False have out: "normaliseSql s = trim ?t3" by (simp add: normaliseSql_def)
  have "plain_spaces ?t1" by (rule collapse_whitespace_plain)
  then have "plain_spaces ?t2" by (rule plain_spaces_subset [OF set_tighten])
  then have "plain_spaces ?t3" by (rule plain_spaces_subset [OF set_remove_quotes])
  then have 1: "plain_spaces (trim ?t3)" by (rule plain_spaces_subset [OF set_trim])
  have "successively ok_pair ?t2"
    by (rule tighten_ok) (rule collapse_whitespace_single)
  then have "successively ok_pair ?t3" by (rule remove_quotes_ok)
  then have 2: "successively ok_pair (trim ?t3)" by (rule trim_successively)
  from 1 2 trim_edges [of ?t3] show ?thesis unfolding out by blast
qed

lemma normaliseSql_twice: "normaliseSql (normaliseSql s) = trim (remove_quotes (normaliseSql s))"
proof (cases "normaliseSql s = []")
  case True
  then show ?thesis by (simp add: normaliseSql_def trim_def)
next
  case False
  let ?t = "normaliseSql s"
  from normaliseSql_tidy [of s] have plain: "plain_spaces ?t" and ok: "successively ok_pair ?t"
    by blast+
  have "\<not> is_blank (CHR 0x0A)" and "is_space (CHR 0x0A)"
    by (simp_all add: is_blank_def is_space_def)
  with plain have "CHR 0x0A \<notin> set ?t" by (auto simp: plain_spaces_def)
  then have 1: "remove_comments ?t = ?t" by (rule remove_comments_fixed)
  have "successively (\<lambda>a b. \<not> (is_blank a \<and> is_blank b)) ?t"
    using ok by (rule successively_mono) (simp add: ok_pair_def)
  with plain have 2: "collapse_whitespace ?t = ?t" by (rule collapse_whitespace_fixed)
  from ok have 3: "tighten_punctuation ?t = ?t" by (rule tighten_fixed)
  from False show ?thesis
    by (simp add: normaliseSql_def [of ?t] 1 2 3)
qed

section \<open>The deletion guard\<close>

text \<open>
  Claim C1. When the live database has a table that the target schema does not have and
  whose name does not end in \<open>_migration_new\<close>, and \<open>allowDeletions\<close> is false,
  \<open>migrate\<close> raises the "Refusing to delete tables" error
  (\<open>DestructiveChangeRejected\<close>), which lists that table, and the migrator is in the
  state in which it was called: the same database, \<open>nChanges\<close> as it was (0 after the
  constructor) and no statement executed.
\<close>

theorem deletion_guard:
  assumes "name \<in> fst ` set (query_tables E (db st))"
    and "name \<notin> fst ` set (query_tables E (pristine st))"
    and "\<not> endsWith name ''_migration_new''"
    and "\<not> allowDeletions st"
  shows "name \<in> set (removedTables_of (new_Map (query_tables E (pristine st)))
                       (new_Map (query_tables E (db st)))) \<and>
     migrate E st =
       (Some (DestructiveChangeRejected
          (''Database migration: Refusing to delete tables '' @
           join '','' (removedTables_of (new_Map (query_tables E (pristine st)))
              (new_Map (query_tables E (db st)))))), st)"
proof -
  let ?removed = "removedTables_of (new_Map (query_tables E (pristine st)))
                    (new_Map (query_tables E (db st)))"
  have mem: "name \<in> set ?removed"
    using assms by (simp add: set_removedTables_of set_Map_keys_new_Map)
  then have "?removed \<noteq> []" by auto
  with assms(4) mem show ?thesis
    by (simp add: migrate_def Let_def)
qed

theorem deletion_guard_witness:
  "migrate mini (mini_migrator
      \<lparr>catalog = [(''table'', ''old'', ''CREATE TABLE old(a)'')],
       user_version = 0, foreign_keys = 0, violations = 0\<rparr>
      \<lparr>catalog = [], user_version = 0, foreign_keys = 0, violations = 0\<rparr> False) =
   (Some (DestructiveChangeRejected ''Database migration: Refusing to delete tables old''),
    mini_migrator
      \<lparr>catalog = [(''table'', ''old'', ''CREATE TABLE old(a)'')],
       user_version = 0, foreign_keys = 0, violations = 0\<rparr>
      \<lparr>catalog = [], user_version = 0, foreign_keys = 0, violations = 0\<rparr> False)"
proof -
  let ?st = "mini_migrator
      \<lparr>catalog = [(''table'', ''old'', ''CREATE TABLE old(a)'')],
       user_version = 0, foreign_keys = 0, violations = 0\<rparr>
      \<lparr>catalog = [], user_version = 0, foreign_keys = 0, violations = 0\<rparr> False"
  have 1: "''old'' \<in> fst ` set (query_tables mini (db ?st))"
    by (simp add: mini_simps query_tables_def)
  have 2: "''old'' \<notin> fst ` set (query_tables mini (pristine ?st))"
    by (simp add: mini_simps query_tables_def)
  have 3: "\<not> endsWith ''old'' ''_migration_new''"
    by (simp add: endsWith_def)
  have 4: "\<not> allowDeletions ?st"
    by (simp add: mini_simps)
  show ?thesis
    using deletion_guard [OF 1 2 3 4]
    by (simp add: mini_simps js_simps removedTables_of_def query_tables_def)
qed

section \<open>The reserved suffix\<close>

text \<open>
  Claim C9. A table of the live database whose name ends in \<open>_migration_new\<close> is never
  a member of \<open>removedTables\<close>, so the loop over \<open>removedTables\<close> issues no
  \<open>DROP TABLE\<close> for it: from whatever state the loop starts and however it ends, the
  statement \<open>DROP TABLE name\<close> is not among those it executed. When it is the only
  table of the live database that the target lacks, \<open>removedTables\<close> is empty and
  \<open>migrate\<close> goes on to the plan instead of refusing, whatever \<open>allowDeletions\<close> is.
\<close>

theorem reserved_suffix_not_removed:
  fixes E :: "'db runtime"
  assumes "endsWith name ''_migration_new''"
  shows "name \<notin> set (removedTables_of pristineTables tables) \<and>
     ''DROP TABLE '' @ name \<notin> set (map (\<lambda>tblName. ''DROP TABLE '' @ tblName)
        (removedTables_of pristineTables tables)) \<and>
     (\<forall>(s :: 'db DBMigrator) r s'.
        forEach (dropTable E) (removedTables_of pristineTables tables) s = (r, s') \<longrightarrow>
        ''DROP TABLE '' @ name \<notin> set (drop (length (executed s)) (executed s'))) \<and>
     (fst ` set (query_tables E (db st)) - fst ` set (query_tables E (pristine st)) \<subseteq> {name} \<longrightarrow>
        removedTables_of (new_Map (query_tables E (pristine st)))
          (new_Map (query_tables E (db st))) = [] \<and>
        migrate E st =
          andThen (migrate_plan E (new_Map (query_tables E (pristine st)))
                     (new_Map (query_indices E (pristine st))) (new_Map (query_tables E (db st))))
            (andThen (foreignKeyCheck E) (cleanup E)) st)"
proof -
  have a: "name \<notin> set (removedTables_of pT T)" for pT T
    using assms by (simp add: set_removedTables_of)
  have b: "removedTables_of (new_Map (query_tables E (pristine st)))
             (new_Map (query_tables E (db st))) = []"
    if "fst ` set (query_tables E (db st)) - fst ` set (query_tables E (pristine st)) \<subseteq> {name}"
  proof -
    have "set (removedTables_of (new_Map (query_tables E (pristine st)))
                 (new_Map (query_tables E (db st)))) = {}"
      using that assms by (auto simp: set_removedTables_of set_Map_keys_new_Map)
    then show ?thesis by simp
  qed
  have c: "''DROP TABLE '' @ name \<notin> set (drop (length (executed s)) (executed s'))"
    if "forEach (dropTable E) (removedTables_of pristineTables tables) s = (r, s')"
    for s :: "'db DBMigrator" and r s'
  proof -
    from forEach_dropTable_executed [OF that] obtain ys where
      ys: "executed s' = executed s @ ys"
        "set ys \<subseteq> (\<lambda>n. ''DROP TABLE '' @ n) ` set (removedTables_of pristineTables tables)"
      by blast
    have "''DROP TABLE '' @ name \<notin>
            (\<lambda>n. ''DROP TABLE '' @ n) ` set (removedTables_of pristineTables tables)"
      using a [of pristineTables tables] by auto
    with ys show ?thesis by auto
  qed
  show ?thesis
    using a b c by (auto simp: migrate_def Let_def)
qed

theorem reserved_suffix_not_removed_witness:
  "endsWith ''x_migration_new'' ''_migration_new'' \<and>
   ''x_migration_new'' \<notin> set (removedTables_of [] [(''x_migration_new'', ''CREATE TABLE x_migration_new(a)'')]) \<and>
   migrate mini (mini_migrator
      \<lparr>catalog = [(''table'', ''x_migration_new'', ''CREATE TABLE x_migration_new(a)'')],
       user_version = 0, foreign_keys = 0, violations = 0\<rparr>
      \<lparr>catalog = [], user_version = 0, foreign_keys = 0, violations = 0\<rparr> False) =
   (None,
    \<lparr>db = \<lparr>catalog = [], user_version = 0, foreign_keys = 0, violations = 0\<rparr>,
     schema = [], allowDeletions = False,
     pristine = \<lparr>catalog = [], user_version = 0, foreign_keys = 0, violations = 0\<rparr>,
     nChanges = 1, origForeignKeys = None,
     executed = [''DROP TABLE IF EXISTS x_migration_new'']\<rparr>)"
proof -
  let ?st = "mini_migrator
      \<lparr>catalog = [(''table'', ''x_migration_new'', ''CREATE TABLE x_migration_new(a)'')],
       user_version = 0, foreign_keys = 0, violations = 0\<rparr>
      \<lparr>catalog = [], user_version = 0, foreign_keys = 0, violations = 0\<rparr> False"
  have 1: "endsWith ''x_migration_new'' ''_migration_new''"
    by (simp add: endsWith_def)
  have 2: "fst ` set (query_tables mini (db ?st)) - fst ` set (query_tables mini (pristine ?st))
             \<subseteq> {''x_migration_new''}"
    by (simp add: mini_simps query_tables_def)
  from reserved_suffix_not_removed [OF 1, of "[]" "[(''x_migration_new'', ''CREATE TABLE x_migration_new(a)'')]" mini ?st] 2
  have "''x_migration_new'' \<notin> set (removedTables_of [] [(''x_migration_new'', ''CREATE TABLE x_migration_new(a)'')])"
    and "migrate mini ?st =
          andThen (migrate_plan mini (new_Map (query_tables mini (pristine ?st)))
                     (new_Map (query_indices mini (pristine ?st))) (new_Map (query_tables mini (db ?st))))
            (andThen (foreignKeyCheck mini) (cleanup mini)) ?st"
    by blast+
  then show ?thesis
    using 1 by (simp add: mini_simps js_simps migrate_simps Let_def)
qed

section \<open>A database that already matches\<close>




section \<open>The leftover cleanup of a run\<close>

text \<open>
  Claim C3, as stated, fails: the cleanup is the last block of \<open>migrate\<close> and nothing
  runs it after an exception. Here the run refuses to delete the table \<open>old\<close>; the
  table \<open>users_migration_new\<close> is still in the live database and no statement was
  executed. Nor is a leftover always dropped by a run that returns: the cleanup writes the
  name into \<open>DROP TABLE IF EXISTS\<close> without quotes, so for the leftover
  \<open>main.users_migration_new\<close> the engine reads the statement as the table
  \<open>users_migration_new\<close> of the schema \<open>main\<close>; the statement succeeds and the
  leftover is still in the live database.
\<close>

theorem cleanup_skipped_on_error:
  "migrate mini (mini_migrator
      \<lparr>catalog = [(''table'', ''old'', ''CREATE TABLE old(a)''),
                  (''table'', ''users_migration_new'', ''CREATE TABLE users_migration_new(a)'')],
       user_version = 0, foreign_keys = 0, violations = 0\<rparr>
      \<lparr>catalog = [], user_version = 0, foreign_keys = 0, violations = 0\<rparr> False) =
   (Some (DestructiveChangeRejected ''Database migration: Refusing to delete tables old''),
    \<lparr>db = \<lparr>catalog = [(''table'', ''old'', ''CREATE TABLE old(a)''),
                  (''table'', ''users_migration_new'', ''CREATE TABLE users_migration_new(a)'')],
            user_version = 0, foreign_keys = 0, violations = 0\<rparr>,
     schema = [], allowDeletions = False,
     pristine = \<lparr>catalog = [], user_version = 0, foreign_keys = 0, violations = 0\<rparr>,
     nChanges = 0, origForeignKeys = None, executed = []\<rparr>) \<and>
   endsWith ''main.users_migration_new'' ''_migration_new'' \<and>
   migrate mini_qualified (mini_migrator
      \<lparr>catalog = [(''table'', ''main.users_migration_new'',
                    ''CREATE TABLE '' @ [CHR 0x22] @ ''main.users_migration_new'' @ [CHR 0x22] @ ''(a)'')],
       user_version = 0, foreign_keys = 0, violations = 0\<rparr>
      \<lparr>catalog = [], user_version = 0, foreign_keys = 0, violations = 0\<rparr> True) =
   (None,
    \<lparr>db = \<lparr>catalog = [(''table'', ''main.users_migration_new'',
                    ''CREATE TABLE '' @ [CHR 0x22] @ ''main.users_migration_new'' @ [CHR 0x22] @ ''(a)'')],
            user_version = 0, foreign_keys = 0, violations = 0\<rparr>,
     schema = [], allowDeletions = True,
     pristine = \<lparr>catalog = [], user_version = 0, foreign_keys = 0, violations = 0\<rparr>,
     nChanges = 1, origForeignKeys = None,
     executed = [''DROP TABLE IF EXISTS main.users_migration_new'']\<rparr>)"
  by code_simp


text \<open>
  Claim C3, amended. When \<open>migrate\<close> returns without an exception, the run has reached
  the cleanup in some state \<open>st1\<close>, and the statements that the cleanup executed are
  exactly \<open>DROP TABLE IF EXISTS n\<close> for the tables \<open>n\<close> of the live database, as it
  is then, whose names match \<open>LIKE '%_migration_new'\<close>; every table whose name ends
  in \<open>_migration_new\<close> is among them.
\<close>

theorem cleanup_on_success:
  assumes "migrate E st = (None, st')"
  shows "\<exists>st1.
     andThen (migrate_plan E (new_Map (query_tables E (pristine st)))
                (new_Map (query_indices E (pristine st))) (new_Map (query_tables E (db st))))
       (foreignKeyCheck E) st = (None, st1) \<and>
     cleanup E st1 = (None, st') \<and>
     executed st' =
       executed st1 @ map (\<lambda>n. ''DROP TABLE IF EXISTS '' @ n) (query_leftover E (db st1)) \<and>
     (\<forall>n s. (''table'', n, s) \<in> set (sqlite_master E (db st1)) \<and> endsWith n ''_migration_new''
        \<longrightarrow> ''DROP TABLE IF EXISTS '' @ n \<in> set (executed st'))"
proof -
  from migrate_success [OF assms] obtain st1 where
    plan: "andThen (migrate_plan E (new_Map (query_tables E (pristine st)))
                (new_Map (query_indices E (pristine st))) (new_Map (query_tables E (db st))))
       (foreignKeyCheck E) st = (None, st1)" and
    clean: "cleanup E st1 = (None, st')"
    by blast
  have ex: "executed st' =
       executed st1 @ map (\<lambda>n. ''DROP TABLE IF EXISTS '' @ n) (query_leftover E (db st1))"
    using clean by (rule cleanup_executed)
  have "''DROP TABLE IF EXISTS '' @ n \<in> set (executed st')"
    if "(''table'', n, s) \<in> set (sqlite_master E (db st1))" and "endsWith n ''_migration_new''"
    for n s
  proof -
    from that have "n \<in> set (query_leftover E (db st1))"
      by (rule leftover_has_suffix_tables)
    then show ?thesis unfolding ex by simp
  qed
  with plan clean ex show ?thesis by blast
qed

theorem cleanup_on_success_witness:
  "migrate mini (mini_migrator
      \<lparr>catalog = [(''table'', ''users_migration_new'', ''CREATE TABLE users_migration_new(a)'')],
       user_version = 0, foreign_keys = 0, violations = 0\<rparr>
      \<lparr>catalog = [], user_version = 0, foreign_keys = 0, violations = 0\<rparr> True) =
   (None,
    \<lparr>db = \<lparr>catalog = [], user_version = 0, foreign_keys = 0, violations = 0\<rparr>,
     schema = [], allowDeletions = True,
     pristine = \<lparr>catalog = [], user_version = 0, foreign_keys = 0, violations = 0\<rparr>,
     nChanges = 1, origForeignKeys = None,
     executed = [''DROP TABLE IF EXISTS users_migration_new'']\<rparr>) \<and>
   (\<exists>st1. cleanup mini st1 =
      (None,
       \<lparr>db = \<lparr>catalog = [], user_version = 0, foreign_keys = 0, violations = 0\<rparr>,
        schema = [], allowDeletions = True,
        pristine = \<lparr>catalog = [], user_version = 0, foreign_keys = 0, violations = 0\<rparr>,
        nChanges = 1, origForeignKeys = None,
        executed = [''DROP TABLE IF EXISTS users_migration_new'']\<rparr>) \<and>
      [''DROP TABLE IF EXISTS users_migration_new''] =
        executed st1 @ map (\<lambda>n. ''DROP TABLE IF EXISTS '' @ n) (query_leftover mini (db st1)))"
proof -
  have run: "migrate mini (mini_migrator
      \<lparr>catalog = [(''table'', ''users_migration_new'', ''CREATE TABLE users_migration_new(a)'')],
       user_version = 0, foreign_keys = 0, violations = 0\<rparr>
      \<lparr>catalog = [], user_version = 0, foreign_keys = 0, violations = 0\<rparr> True) =
   (None,
    \<lparr>db = \<lparr>catalog = [], user_version = 0, foreign_keys = 0, violations = 0\<rparr>,
     schema = [], allowDeletions = True,
     pristine = \<lparr>catalog = [], user_version = 0, foreign_keys = 0, violations = 0\<rparr>,
     nChanges = 1, origForeignKeys = None,
     executed = [''DROP TABLE IF EXISTS users_migration_new'']\<rparr>)"
    by (simp add: mini_simps js_simps migrate_simps Let_def)
  from cleanup_on_success [OF run] show ?thesis
    using run by auto
qed

section \<open>The foreign-key check\<close>

text \<open>
  Claim C4 at a failing input. The target schema has \<open>foreign_keys = 1\<close> and
  \<open>PRAGMA foreign_key_check\<close> reports a violation in the live database, yet
  \<open>migrate\<close> returns without an exception: it reads the row of
  \<open>PRAGMA foreign_keys\<close> at the key \<open>0\<close>, which the row does not have
  (\<open>foreignKeyCheck_skips\<close>), so the check is never made.
\<close>

theorem foreign_key_check_not_run:
  "migrate mini (mini_migrator
      \<lparr>catalog = [(''table'', ''parent'', ''CREATE TABLE parent(id INTEGER PRIMARY KEY)''),
                  (''table'', ''child'', ''CREATE TABLE child(pid INTEGER REFERENCES parent(id))'')],
       user_version = 0, foreign_keys = 0, violations = 1\<rparr>
      \<lparr>catalog = [(''table'', ''parent'', ''CREATE TABLE parent(id INTEGER PRIMARY KEY)''),
                  (''table'', ''child'', ''CREATE TABLE child(pid INTEGER REFERENCES parent(id))'')],
       user_version = 0, foreign_keys = 1, violations = 0\<rparr> False) =
   (None,
    \<lparr>db = \<lparr>catalog = [(''table'', ''parent'', ''CREATE TABLE parent(id INTEGER PRIMARY KEY)''),
                  (''table'', ''child'', ''CREATE TABLE child(pid INTEGER REFERENCES parent(id))'')],
            user_version = 0, foreign_keys = 0, violations = 1\<rparr>,
     schema = [], allowDeletions = False,
     pristine = \<lparr>catalog = [(''table'', ''parent'', ''CREATE TABLE parent(id INTEGER PRIMARY KEY)''),
                  (''table'', ''child'', ''CREATE TABLE child(pid INTEGER REFERENCES parent(id))'')],
       user_version = 0, foreign_keys = 1, violations = 0\<rparr>,
     nChanges = 0, origForeignKeys = None, executed = []\<rparr>)"
  by code_simp

section \<open>The pragmas\<close>

text \<open>
  Claim C5, as stated, fails for \<open>foreign_keys\<close>: \<open>migrate\<close> calls
  \<open>migratePragma\<close> for \<open>user_version\<close> only. Here the target has
  \<open>foreign_keys = 1\<close> and the live database \<open>foreign_keys = 0\<close>; the run executes no
  statement at all.
\<close>

theorem foreign_keys_not_reconciled:
  "pragma_value mini \<lparr>catalog = [], user_version = 0, foreign_keys = 1, violations = 0\<rparr>
     ''foreign_keys'' = Some 1 \<and>
   pragma_value mini \<lparr>catalog = [], user_version = 0, foreign_keys = 0, violations = 0\<rparr>
     ''foreign_keys'' = Some 0 \<and>
   migrate mini (mini_migrator
      \<lparr>catalog = [], user_version = 0, foreign_keys = 0, violations = 0\<rparr>
      \<lparr>catalog = [], user_version = 0, foreign_keys = 1, violations = 0\<rparr> False) =
   (None,
    \<lparr>db = \<lparr>catalog = [], user_version = 0, foreign_keys = 0, violations = 0\<rparr>,
     schema = [], allowDeletions = False,
     pristine = \<lparr>catalog = [], user_version = 0, foreign_keys = 1, violations = 0\<rparr>,
     nChanges = 0, origForeignKeys = None, executed = []\<rparr>)"
  by (simp add: mini_simps js_simps migrate_simps Let_def)

text \<open>
  Claim C5, amended. When the tables and the indices have been migrated without an
  exception, and the target's \<open>user_version\<close> differs from the live database's, the next
  statement of the plan is \<open>PRAGMA user_version = target\<close>: it is given to \<open>db.run\<close>,
  and when that returns, it is counted and the plan is complete.
\<close>

theorem user_version_reconciled:
  assumes "migrate_objects E pristineTables pristineIndices tables st = (None, st1)"
    and "pragma_value E (pristine st1) ''user_version'' = Some target"
    and "pragma_value E (db st1) ''user_version'' = Some current"
    and "current \<noteq> target"
  shows "migrate_plan E pristineTables pristineIndices tables st =
     (case run E (db st1) (''PRAGMA user_version = '' @ number_toString target) of
        Inl e \<Rightarrow> (Some (ExecutionError e), st1)
      | Inr d \<Rightarrow>
          (None, st1\<lparr>db := d, nChanges := nChanges st1 + 1,
                      executed := executed st1 @
                        [''PRAGMA user_version = '' @ number_toString target]\<rparr>))"
proof -
  have eq: "''PRAGMA '' @ ''user_version'' @ '' = '' @ number_toString target =
      ''PRAGMA user_version = '' @ number_toString target"
    by simp
  have "migrate_plan E pristineTables pristineIndices tables st =
      migratePragma E ''user_version'' st1"
    using assms(1) by (simp add: migrate_plan_def andThen_def)
  also have "\<dots> = (case run E (db st1) (''PRAGMA '' @ ''user_version'' @ '' = '' @ number_toString target) of
        Inl e \<Rightarrow> (Some (ExecutionError e), st1)
      | Inr d \<Rightarrow>
          (None, st1\<lparr>db := d, nChanges := nChanges st1 + 1,
                      executed := executed st1 @
                        [''PRAGMA '' @ ''user_version'' @ '' = '' @ number_toString target]\<rparr>))"
    using assms(2-4) by (rule migratePragma_differs)
  finally show ?thesis unfolding eq .
qed

theorem user_version_reconciled_witness:
  "migrate_plan mini [] [] [] (mini_migrator
      \<lparr>catalog = [], user_version = 0, foreign_keys = 0, violations = 0\<rparr>
      \<lparr>catalog = [], user_version = 12, foreign_keys = 0, violations = 0\<rparr> False) =
   (None,
    \<lparr>db = \<lparr>catalog = [], user_version = 12, foreign_keys = 0, violations = 0\<rparr>,
     schema = [], allowDeletions = False,
     pristine = \<lparr>catalog = [], user_version = 12, foreign_keys = 0, violations = 0\<rparr>,
     nChanges = 1, origForeignKeys = None, executed = [''PRAGMA user_version = 12'']\<rparr>)"
proof -
  let ?d = "\<lparr>catalog = [], user_version = 0, foreign_keys = 0, violations = 0\<rparr>"
  let ?p = "\<lparr>catalog = [], user_version = 12, foreign_keys = 0, violations = 0\<rparr>"
  let ?st = "mini_migrator ?d ?p False"
  have 1: "migrate_objects mini [] [] [] ?st = (None, ?st)"
    by (simp add: mini_simps js_simps migrate_simps Let_def)
  have 2: "pragma_value mini (pristine ?st) ''user_version'' = Some 12"
    by (simp add: mini_simps)
  have 3: "pragma_value mini (db ?st) ''user_version'' = Some 0"
    by (simp add: mini_simps)
  have 4: "(0::int) \<noteq> 12" by simp
  have 5: "number_toString 12 = ''12''"
    by code_simp
  have 6: "run mini (db ?st) (''PRAGMA user_version = '' @ ''12'') =
      Inr \<lparr>catalog = [], user_version = 12, foreign_keys = 0, violations = 0\<rparr>"
    by (simp add: mini_simps)
  show ?thesis
    using user_version_reconciled [OF 1 2 3 4, unfolded 5] 6
    by (simp add: mini_migrator_def)
qed

section \<open>The indices\<close>

text \<open>
  Claim C6 at a failing input. The SQL texts of a table are compared in canonical form
  (\<open>modifiedTables_of\<close>), those of an index as they are. Here the two definitions of
  the index \<open>i\<close> differ by one space and have the same canonical form, and the run
  drops the index and creates it again.
\<close>

theorem index_text_compared_verbatim:
  "normaliseSql ''CREATE INDEX i ON t (a)'' = normaliseSql ''CREATE INDEX i ON t(a)'' \<and>
   migrate mini (mini_migrator
      \<lparr>catalog = [(''table'', ''t'', ''CREATE TABLE t(a)''),
                  (''index'', ''i'', ''CREATE INDEX i ON t(a)'')],
       user_version = 0, foreign_keys = 0, violations = 0\<rparr>
      \<lparr>catalog = [(''table'', ''t'', ''CREATE TABLE t(a)''),
                  (''index'', ''i'', ''CREATE INDEX i ON t (a)'')],
       user_version = 0, foreign_keys = 0, violations = 0\<rparr> False) =
   (None,
    \<lparr>db = \<lparr>catalog = [(''table'', ''t'', ''CREATE TABLE t(a)''),
                  (''index'', ''i'', ''CREATE INDEX i ON t (a)'')],
            user_version = 0, foreign_keys = 0, violations = 0\<rparr>,
     schema = [], allowDeletions = False,
     pristine = \<lparr>catalog = [(''table'', ''t'', ''CREATE TABLE t(a)''),
                  (''index'', ''i'', ''CREATE INDEX i ON t (a)'')],
       user_version = 0, foreign_keys = 0, violations = 0\<rparr>,
     nChanges = 2, origForeignKeys = None,
     executed = [''DROP INDEX i'', ''CREATE INDEX i ON t (a)'']\<rparr>)"
  by code_simp

text \<open>
  What the two loops do for an index name that the live database has (with the SQL text
  \<open>current\<close>) and the target has (with the text \<open>sql\<close>): when the two texts are
  equal, the loop over the target's indices executes nothing for it; when they differ, it
  gives \<open>DROP INDEX name\<close> to \<open>db.run\<close> and, when that returns, counts it and goes on
  to execute the target's text. The loop over the live indices executes nothing for a
  name that the target has.
\<close>

lemma index_replaced_iff_text_differs:
  assumes "Map_get indices name = Some current"
  shows "(sql = current \<longrightarrow> migrateIndex E indices (name, sql) st = (None, st)) \<and>
     (sql \<noteq> current \<longrightarrow>
        migrateIndex E indices (name, sql) st =
          (case run E (db st) (''DROP INDEX '' @ name) of
             Inl e \<Rightarrow> (Some (ExecutionError e), st)
           | Inr d \<Rightarrow>
               logExecute E (''Index '' @ name @ '' changed: Creating updated version in its place'')
                 sql
                 (st\<lparr>db := d, nChanges := nChanges st + 1,
                     executed := executed st @ [''DROP INDEX '' @ name]\<rparr>))) \<and>
     (Map_has pristineIndices name \<longrightarrow> dropObsoleteIndex E pristineIndices name st = (None, st))"
proof (intro conjI impI)
  from assms have has: "Map_has indices name"
    by (simp add: Map_has_def Map_get_def)
  show "migrateIndex E indices (name, sql) st = (None, st)" if "sql = current"
    using that assms has by (simp add: migrateIndex_def)
  show "migrateIndex E indices (name, sql) st =
          (case run E (db st) (''DROP INDEX '' @ name) of
             Inl e \<Rightarrow> (Some (ExecutionError e), st)
           | Inr d \<Rightarrow>
               logExecute E (''Index '' @ name @ '' changed: Creating updated version in its place'')
                 sql
                 (st\<lparr>db := d, nChanges := nChanges st + 1,
                     executed := executed st @ [''DROP INDEX '' @ name]\<rparr>))"
    if "sql \<noteq> current"
  proof -
    have "migrateIndex E indices (name, sql) st =
        andThen
          (logExecute E (''Index '' @ name @ '' changed: Dropping old version'')
             (''DROP INDEX '' @ name))
          (logExecute E (''Index '' @ name @ '' changed: Creating updated version in its place'')
             sql) st"
      using that assms has by (simp add: migrateIndex_def)
    also have "\<dots> =
          (case run E (db st) (''DROP INDEX '' @ name) of
             Inl e \<Rightarrow> (Some (ExecutionError e), st)
           | Inr d \<Rightarrow>
               logExecute E (''Index '' @ name @ '' changed: Creating updated version in its place'')
                 sql
                 (st\<lparr>db := d, nChanges := nChanges st + 1,
                     executed := executed st @ [''DROP INDEX '' @ name]\<rparr>))"
      unfolding andThen_def
      using drop_index_nonblank [of name]
      by (subst logExecute_nonblank) (auto split: sum.splits)
    finally show ?thesis .
  qed
  show "dropObsoleteIndex E pristineIndices name st = (None, st)" if "Map_has pristineIndices name"
    using that by (simp add: dropObsoleteIndex_def)
qed

lemma index_replaced_iff_text_differs_example:
  "migrateIndex mini [(''i'', ''CREATE INDEX i ON t(a)'')] (''i'', ''CREATE INDEX i ON t (a)'')
     (mini_migrator
        \<lparr>catalog = [(''index'', ''i'', ''CREATE INDEX i ON t(a)'')],
         user_version = 0, foreign_keys = 0, violations = 0\<rparr>
        \<lparr>catalog = [(''index'', ''i'', ''CREATE INDEX i ON t (a)'')],
         user_version = 0, foreign_keys = 0, violations = 0\<rparr> False) =
   (None,
    \<lparr>db = \<lparr>catalog = [(''index'', ''i'', ''CREATE INDEX i ON t (a)'')],
            user_version = 0, foreign_keys = 0, violations = 0\<rparr>,
     schema = [], allowDeletions = False,
     pristine = \<lparr>catalog = [(''index'', ''i'', ''CREATE INDEX i ON t (a)'')],
                 user_version = 0, foreign_keys = 0, violations = 0\<rparr>,
     nChanges = 2, origForeignKeys = None,
     executed = [''DROP INDEX i'', ''CREATE INDEX i ON t (a)'']\<rparr>) \<and>
   migrateIndex mini [(''i'', ''CREATE INDEX i ON t(a)'')] (''i'', ''CREATE INDEX i ON t(a)'')
     (mini_migrator
        \<lparr>catalog = [(''index'', ''i'', ''CREATE INDEX i ON t(a)'')],
         user_version = 0, foreign_keys = 0, violations = 0\<rparr>
        \<lparr>catalog = [(''index'', ''i'', ''CREATE INDEX i ON t(a)'')],
         user_version = 0, foreign_keys = 0, violations = 0\<rparr> False) =
   (None,
    mini_migrator
        \<lparr>catalog = [(''index'', ''i'', ''CREATE INDEX i ON t(a)'')],
         user_version = 0, foreign_keys = 0, violations = 0\<rparr>
        \<lparr>catalog = [(''index'', ''i'', ''CREATE INDEX i ON t(a)'')],
         user_version = 0, foreign_keys = 0, violations = 0\<rparr> False)"
proof -
  let ?d = "\<lparr>catalog = [(''index'', ''i'', ''CREATE INDEX i ON t(a)'')],
         user_version = 0, foreign_keys = 0, violations = 0\<rparr>"
  let ?p = "\<lparr>catalog = [(''index'', ''i'', ''CREATE INDEX i ON t (a)'')],
         user_version = 0, foreign_keys = 0, violations = 0\<rparr>"
  have 1: "Map_get [(''i'', ''CREATE INDEX i ON t(a)'')] ''i'' = Some ''CREATE INDEX i ON t(a)''"
    by (simp add: Map_get_def)
  have 2: "''CREATE INDEX i ON t (a)'' \<noteq> ''CREATE INDEX i ON t(a)''"
    by simp
  have 3: "run mini (db (mini_migrator ?d ?p False)) (''DROP INDEX '' @ ''i'') =
      Inr \<lparr>catalog = [], user_version = 0, foreign_keys = 0, violations = 0\<rparr>"
    by (simp add: mini_simps)
  from index_replaced_iff_text_differs [OF 1, of "''CREATE INDEX i ON t (a)''" mini
      "mini_migrator ?d ?p False" "[]"] 2 3
  have differ: "migrateIndex mini [(''i'', ''CREATE INDEX i ON t(a)'')] (''i'', ''CREATE INDEX i ON t (a)'')
     (mini_migrator ?d ?p False) =
     logExecute mini (''Index '' @ ''i'' @ '' changed: Creating updated version in its place'')
       ''CREATE INDEX i ON t (a)''
       ((mini_migrator ?d ?p False)\<lparr>db := \<lparr>catalog = [], user_version = 0, foreign_keys = 0, violations = 0\<rparr>,
          nChanges := nChanges (mini_migrator ?d ?p False) + 1,
          executed := executed (mini_migrator ?d ?p False) @ [''DROP INDEX '' @ ''i'']\<rparr>)"
    by simp
  from index_replaced_iff_text_differs [OF 1, of "''CREATE INDEX i ON t(a)''" mini
      "mini_migrator ?d ?d False" "[]"]
  have same: "migrateIndex mini [(''i'', ''CREATE INDEX i ON t(a)'')] (''i'', ''CREATE INDEX i ON t(a)'')
     (mini_migrator ?d ?d False) = (None, mini_migrator ?d ?d False)"
    by simp
  show ?thesis
    unfolding differ same
    by (simp add: mini_simps logExecute_def trim_def is_space_def)
qed

section \<open>normaliseSql on comments and whitespace\<close>

text \<open>
  The assertion of \<open>testNormaliseSql\<close> in the source holds of the model.
\<close>

lemma testNormaliseSql:
  "normaliseSql
     ([CHR 0x0A] @ ''        CREATE TABLE '' @ [CHR 0x22] @ ''Node'' @ [CHR 0x22] @
      ''( -- This is my table'' @ [CHR 0x0A] @
      ''            -- There are many like it but this one is mine'' @ [CHR 0x0A] @
      ''            A b, C D, '' @ [CHR 0x22] @ ''E F G'' @ [CHR 0x22] @ '', h)'' @ [CHR 0x0A] @
      ''    '') =
   ''CREATE TABLE Node(A b,C D,'' @ [CHR 0x22] @ ''E F G'' @ [CHR 0x22] @ '',h)''"
  by code_simp

text \<open>
  Claim C7 at failing inputs. The comment expression needs a line feed after the
  comment and removes it with the comment. So a comment on the last line, with no line
  feed after it, is kept: two statements that differ only in its text have different
  canonical forms. And the words before a comment and on the next line are joined when
  the next line starts at once: two statements that differ only in the whitespace after
  a comment have different canonical forms.
\<close>

theorem comments_and_whitespace_not_ignored:
  "normaliseSql ''CREATE TABLE t(a) -- first version'' = ''CREATE TABLE t(a)-- first version'' \<and>
   normaliseSql ''CREATE TABLE t(a) -- second version'' = ''CREATE TABLE t(a)-- second version'' \<and>
   normaliseSql (''CREATE TABLE t(a INTEGER-- key'' @ [CHR 0x0A] @ ''NOT NULL)'') =
     ''CREATE TABLE t(a INTEGERNOT NULL)'' \<and>
   normaliseSql (''CREATE TABLE t(a INTEGER-- key'' @ [CHR 0x0A] @ ''  NOT NULL)'') =
     ''CREATE TABLE t(a INTEGER NOT NULL)'' \<and>
   normaliseSql ''CREATE TABLE t(a) -- first version'' \<noteq>
     normaliseSql ''CREATE TABLE t(a) -- second version'' \<and>
   normaliseSql (''CREATE TABLE t(a INTEGER-- key'' @ [CHR 0x0A] @ ''NOT NULL)'') \<noteq>
     normaliseSql (''CREATE TABLE t(a INTEGER-- key'' @ [CHR 0x0A] @ ''  NOT NULL)'')"
  by code_simp

section \<open>normaliseSql applied twice\<close>

text \<open>
  Claim C8, as stated, fails: the quotes are removed in one pass from left to right, and
  a quoted word between two further quotes becomes a quoted word of the result.
\<close>

theorem normaliseSql_not_idempotent:
  "normaliseSql ([CHR 0x22, CHR 0x22] @ ''a'' @ [CHR 0x22, CHR 0x22]) = [CHR 0x22] @ ''a'' @ [CHR 0x22] \<and>
   normaliseSql (normaliseSql ([CHR 0x22, CHR 0x22] @ ''a'' @ [CHR 0x22, CHR 0x22])) = ''a'' \<and>
   normaliseSql (normaliseSql ([CHR 0x22, CHR 0x22] @ ''a'' @ [CHR 0x22, CHR 0x22])) \<noteq>
     normaliseSql ([CHR 0x22, CHR 0x22] @ ''a'' @ [CHR 0x22, CHR 0x22])"
  by code_simp

text \<open>
  Claim C8, amended. On a canonical form the comment, whitespace and punctuation steps
  and the trim change nothing (\<open>normaliseSql_twice\<close>), so \<open>normaliseSql\<close> is idempotent
  at every string whose canonical form has no quoted word left for the quote step to
  remove.
\<close>

theorem normaliseSql_idempotent_without_quoted_words:
  assumes "remove_quotes (normaliseSql s) = normaliseSql s"
  shows "normaliseSql (normaliseSql s) = normaliseSql s"
proof -
  have "normaliseSql (normaliseSql s) = trim (normaliseSql s)"
    by (simp add: normaliseSql_twice assms)
  also have "\<dots> = normaliseSql s"
    using normaliseSql_tidy [of s] by (intro trim_fixed) blast
  finally show ?thesis .
qed

theorem normaliseSql_idempotent_without_quoted_words_witness:
  "normaliseSql (normaliseSql
     ([CHR 0x0A] @ ''        CREATE TABLE '' @ [CHR 0x22] @ ''Node'' @ [CHR 0x22] @
      ''( -- This is my table'' @ [CHR 0x0A] @
      ''            A b, C D, '' @ [CHR 0x22] @ ''E F G'' @ [CHR 0x22] @ '', h)'' @ [CHR 0x0A])) =
   ''CREATE TABLE Node(A b,C D,'' @ [CHR 0x22] @ ''E F G'' @ [CHR 0x22] @ '',h)''"
proof -
  let ?s = "[CHR 0x0A] @ ''        CREATE TABLE '' @ [CHR 0x22] @ ''Node'' @ [CHR 0x22] @
      ''( -- This is my table'' @ [CHR 0x0A] @
      ''            A b, C D, '' @ [CHR 0x22] @ ''E F G'' @ [CHR 0x22] @ '', h)'' @ [CHR 0x0A]"
  have canonical: "normaliseSql ?s =
      ''CREATE TABLE Node(A b,C D,'' @ [CHR 0x22] @ ''E F G'' @ [CHR 0x22] @ '',h)''"
    by code_simp
  have "remove_quotes (''CREATE TABLE Node(A b,C D,'' @ [CHR 0x22] @ ''E F G'' @ [CHR 0x22] @ '',h)'') =
      ''CREATE TABLE Node(A b,C D,'' @ [CHR 0x22] @ ''E F G'' @ [CHR 0x22] @ '',h)''"
    by code_simp
  then have "remove_quotes (normaliseSql ?s) = normaliseSql ?s"
    by (simp only: canonical)
  from normaliseSql_idempotent_without_quoted_words [OF this] show ?thesis
    by (simp only: canonical)
qed

section \<open>A target table with the reserved suffix\<close>

text \<open>
  Claim C10, as stated, fails: the cleanup writes the name into
  \<open>DROP TABLE IF EXISTS\<close> without quotes, and what the statement then removes is the
  engine's reading of that text. Here the target defines the table
  \<open>main.t_migration_new\<close>, which the live database lacks. The run creates it and the
  cleanup executes \<open>DROP TABLE IF EXISTS main.t_migration_new\<close>, which the engine reads
  as the table \<open>t_migration_new\<close> of the schema \<open>main\<close>: the run returns, and the live
  database has the table that the target has.
\<close>

theorem reserved_target_table_survives:
  "endsWith ''main.t_migration_new'' ''_migration_new'' \<and>
   migrate mini_qualified (mini_migrator
      \<lparr>catalog = [], user_version = 0, foreign_keys = 0, violations = 0\<rparr>
      \<lparr>catalog = [(''table'', ''main.t_migration_new'',
                    ''CREATE TABLE '' @ [CHR 0x22] @ ''main.t_migration_new'' @ [CHR 0x22] @ ''(a)'')],
       user_version = 0, foreign_keys = 0, violations = 0\<rparr> False) =
   (None,
    \<lparr>db = \<lparr>catalog = [(''table'', ''main.t_migration_new'',
                    ''CREATE TABLE '' @ [CHR 0x22] @ ''main.t_migration_new'' @ [CHR 0x22] @ ''(a)'')],
            user_version = 0, foreign_keys = 0, violations = 0\<rparr>,
     schema = [], allowDeletions = False,
     pristine = \<lparr>catalog = [(''table'', ''main.t_migration_new'',
                    ''CREATE TABLE '' @ [CHR 0x22] @ ''main.t_migration_new'' @ [CHR 0x22] @ ''(a)'')],
       user_version = 0, foreign_keys = 0, violations = 0\<rparr>,
     nChanges = 2, origForeignKeys = None,
     executed = [''CREATE TABLE '' @ [CHR 0x22] @ ''main.t_migration_new'' @ [CHR 0x22] @ ''(a)'',
                 ''DROP TABLE IF EXISTS main.t_migration_new'']\<rparr>) \<and>
   ''main.t_migration_new'' \<in> fst ` set (query_tables mini_qualified
      \<lparr>catalog = [(''table'', ''main.t_migration_new'',
                    ''CREATE TABLE '' @ [CHR 0x22] @ ''main.t_migration_new'' @ [CHR 0x22] @ ''(a)'')],
       user_version = 0, foreign_keys = 0, violations = 0\<rparr>)"
  by code_simp

text \<open>
  Claim C10, amended. Let the target schema define a table \<open>t\<close> whose name ends in
  \<open>_migration_new\<close>, with the (non-blank) SQL text \<open>sql\<close>, and let the live database
  lack it; let the run return without an exception, and let \<open>st1\<close> be the state in
  which it reached the cleanup. Then \<open>t\<close> is one of \<open>newTables\<close> and \<open>sql\<close> was
  executed before the cleanup; the cleanup executed \<open>DROP TABLE IF EXISTS n\<close> for
  exactly the tables \<open>n\<close> that matched the leftover query; when \<open>t\<close> was in the live
  database at that point, \<open>DROP TABLE IF EXISTS t\<close> was executed after \<open>sql\<close>; and
  when the engine removes what these statements name (\<open>drops_remove\<close>), the live
  database after the run does not have the table \<open>t\<close> that the target has.
\<close>

theorem target_table_with_reserved_suffix:
  fixes E :: "'db runtime"
  assumes target: "Map_get (new_Map (query_tables E (pristine st))) t = Some sql"
    and sql: "sql \<noteq> []" "trim sql \<noteq> []"
    and suffix: "endsWith t ''_migration_new''"
    and absent: "t \<notin> fst ` set (query_tables E (db st))"
    and run: "migrate E st = (None, st')"
    and reached: "andThen (migrate_plan E (new_Map (query_tables E (pristine st)))
                     (new_Map (query_indices E (pristine st))) (new_Map (query_tables E (db st))))
                    (foreignKeyCheck E) st = (None, st1)"
  shows "t \<in> set (newTables_of (new_Map (query_tables E (pristine st)))
                    (new_Map (query_tables E (db st)))) \<and>
     (\<exists>xs ys. executed st1 = executed st @ xs @ [sql] @ ys) \<and>
     cleanup E st1 = (None, st') \<and>
     executed st' =
       executed st1 @ map (\<lambda>n. ''DROP TABLE IF EXISTS '' @ n) (query_leftover E (db st1)) \<and>
     (t \<in> fst ` set (query_tables E (db st1)) \<longrightarrow>
        (\<exists>xs ys zs. executed st' =
           executed st @ xs @ [sql] @ ys @ [''DROP TABLE IF EXISTS '' @ t] @ zs)) \<and>
     (drops_remove E (query_leftover E (db st1)) \<longrightarrow>
        t \<in> fst ` set (query_tables E (pristine st')) \<and>
        t \<notin> fst ` set (query_tables E (db st')))"
proof -
  let ?pT = "new_Map (query_tables E (pristine st))"
  let ?pI = "new_Map (query_indices E (pristine st))"
  let ?T = "new_Map (query_tables E (db st))"
  let ?drop = "\<lambda>n. ''DROP TABLE IF EXISTS '' @ n"
  from target have tp: "t \<in> fst ` set (query_tables E (pristine st))"
    by (rule Map_get_new_Map_key)
  with absent have new: "t \<in> set (newTables_of ?pT ?T)"
    by (simp add: set_newTables_of set_Map_keys_new_Map)
  from migrate_success [OF run] reached have clean: "cleanup E st1 = (None, st')"
    by auto
  from reached have plan: "migrate_plan E ?pT ?pI ?T st = (None, st1)"
    by (auto simp: andThen_None foreignKeyCheck_skips)
  from migrate_plan_None [OF this] obtain d sa where
    create: "forEach (createTable E ?pT) (newTables_of ?pT ?T) (st\<lparr>db := d\<rparr>) = (None, sa)" and
    ext: "extends sa st1"
    by blast
  from forEach_createTable_executes [OF target sql create new] obtain xs ys where
    "executed sa = executed st @ xs @ [sql] @ ys" by auto
  with ext obtain ws where ex1: "executed st1 = executed st @ xs @ [sql] @ (ys @ ws)"
    by (auto simp: extends_def)
  then have created: "\<exists>xs ys. executed st1 = executed st @ xs @ [sql] @ ys" by blast
  have ex': "executed st' = executed st1 @ map ?drop (query_leftover E (db st1))"
    using clean by (rule cleanup_executed)
  have dropped: "\<exists>xs ys zs. executed st' = executed st @ xs @ [sql] @ ys @ [?drop t] @ zs"
    if "t \<in> fst ` set (query_tables E (db st1))"
  proof -
    from query_tables_in_master [OF that]
    obtain s where "(''table'', t, s) \<in> set (sqlite_master E (db st1))" ..
    then have "t \<in> set (query_leftover E (db st1))"
      using suffix by (rule leftover_has_suffix_tables)
    then obtain us vs where "query_leftover E (db st1) = us @ t # vs"
      by (auto simp: in_set_conv_decomp)
    then have "executed st' =
        executed st @ xs @ [sql] @ ((ys @ ws) @ map ?drop us) @ [?drop t] @ map ?drop vs"
      unfolding ex' ex1 by simp
    then show ?thesis by blast
  qed
  from migrate_extends [OF run] have "pristine st' = pristine st"
    by (simp add: extends_def)
  with tp have tp': "t \<in> fst ` set (query_tables E (pristine st'))" by simp
  have gone: "t \<notin> fst ` set (query_tables E (db st'))"
    if "drops_remove E (query_leftover E (db st1))"
    using that clean suffix by (rule cleanup_removes_reserved)
  from new created clean ex' dropped tp' gone show ?thesis by blast
qed

theorem target_table_with_reserved_suffix_witness:
  "migrate mini (mini_migrator
      \<lparr>catalog = [], user_version = 0, foreign_keys = 0, violations = 0\<rparr>
      \<lparr>catalog = [(''table'', ''t_migration_new'', ''CREATE TABLE t_migration_new(a)'')],
       user_version = 0, foreign_keys = 0, violations = 0\<rparr> False) =
   (None,
    \<lparr>db = \<lparr>catalog = [], user_version = 0, foreign_keys = 0, violations = 0\<rparr>,
     schema = [], allowDeletions = False,
     pristine = \<lparr>catalog = [(''table'', ''t_migration_new'', ''CREATE TABLE t_migration_new(a)'')],
                 user_version = 0, foreign_keys = 0, violations = 0\<rparr>,
     nChanges = 2, origForeignKeys = None,
     executed = [''CREATE TABLE t_migration_new(a)'', ''DROP TABLE IF EXISTS t_migration_new'']\<rparr>) \<and>
   (\<exists>xs ys zs.
      [''CREATE TABLE t_migration_new(a)'', ''DROP TABLE IF EXISTS t_migration_new''] =
        [] @ xs @ [''CREATE TABLE t_migration_new(a)''] @ ys @
        [''DROP TABLE IF EXISTS '' @ ''t_migration_new''] @ zs) \<and>
   ''t_migration_new'' \<in> fst ` set (query_tables mini
      \<lparr>catalog = [(''table'', ''t_migration_new'', ''CREATE TABLE t_migration_new(a)'')],
       user_version = 0, foreign_keys = 0, violations = 0\<rparr>) \<and>
   ''t_migration_new'' \<notin> fst ` set (query_tables mini
      \<lparr>catalog = [], user_version = 0, foreign_keys = 0, violations = 0\<rparr>)"
proof -
  let ?d = "\<lparr>catalog = [], user_version = 0, foreign_keys = 0, violations = 0\<rparr>"
  let ?p = "\<lparr>catalog = [(''table'', ''t_migration_new'', ''CREATE TABLE t_migration_new(a)'')],
       user_version = 0, foreign_keys = 0, violations = 0\<rparr>"
  let ?st = "mini_migrator ?d ?p False"
  let ?st1 = "\<lparr>db = ?p, schema = [], allowDeletions = False, pristine = ?p,
     nChanges = 1, origForeignKeys = None,
     executed = [''CREATE TABLE t_migration_new(a)'']\<rparr>"
  let ?st' = "\<lparr>db = ?d, schema = [], allowDeletions = False, pristine = ?p,
     nChanges = 2, origForeignKeys = None,
     executed = [''CREATE TABLE t_migration_new(a)'', ''DROP TABLE IF EXISTS t_migration_new'']\<rparr>"
  have target: "Map_get (new_Map (query_tables mini (pristine ?st))) ''t_migration_new'' =
      Some ''CREATE TABLE t_migration_new(a)''"
    by (simp add: mini_simps js_simps query_tables_def)
  have sql: "''CREATE TABLE t_migration_new(a)'' \<noteq> []" "trim ''CREATE TABLE t_migration_new(a)'' \<noteq> []"
    by (simp_all add: trim_def is_space_def)
  have suffix: "endsWith ''t_migration_new'' ''_migration_new''"
    by (simp add: endsWith_def)
  have absent: "''t_migration_new'' \<notin> fst ` set (query_tables mini (db ?st))"
    by (simp add: mini_simps query_tables_def)
  have run: "migrate mini ?st = (None, ?st')"
    by (simp add: mini_simps js_simps migrate_simps Let_def)
  have reached: "andThen (migrate_plan mini (new_Map (query_tables mini (pristine ?st)))
                     (new_Map (query_indices mini (pristine ?st)))
                     (new_Map (query_tables mini (db ?st))))
                    (foreignKeyCheck mini) ?st = (None, ?st1)"
    by (simp add: mini_simps js_simps migrate_simps Let_def)
  have present: "''t_migration_new'' \<in> fst ` set (query_tables mini (db ?st1))"
    by (simp add: mini_simps query_tables_def)
  have engine: "drops_remove mini (query_leftover mini (db ?st1))"
    by (rule mini_drops_remove)
  from target_table_with_reserved_suffix [OF target sql suffix absent run reached] present engine
  have "\<exists>xs ys zs. executed ?st' =
           executed ?st @ xs @ [''CREATE TABLE t_migration_new(a)''] @ ys @
           [''DROP TABLE IF EXISTS '' @ ''t_migration_new''] @ zs"
    and "''t_migration_new'' \<in> fst ` set (query_tables mini (pristine ?st'))"
    and "''t_migration_new'' \<notin> fst ` set (query_tables mini (db ?st'))"
    by blast+
  with run show ?thesis by (simp add: mini_migrator_def)
qed

end
